theory Spec2Isabelle
  imports Main
begin

section \<open>Characters and strings\<close>

text \<open>
  A Python \<open>str\<close> is modelled as a \<open>string\<close> whose characters are the code points
  U+0000 to U+00FF (Latin-1); \<open>of_char c\<close> is the code point. On that range the
  character classes of Python's \<open>re\<close> and \<open>str\<close> are the following.
\<close>

definition code :: "char \<Rightarrow> nat" where
  "code c = of_char c"

definition is_digit :: "char \<Rightarrow> bool" where
  \<comment> \<open>\<open>\d\<close>: the decimal digits\<close>
  "is_digit c = (48 \<le> code c \<and> code c \<le> 57)"

definition is_space :: "char \<Rightarrow> bool" where
  \<comment> \<open>\<open>\s\<close> and \<open>str.isspace\<close>: TAB..CR, FS..US, space, NEL, NBSP\<close>
  "is_space c = ((9 \<le> code c \<and> code c \<le> 13) \<or> (28 \<le> code c \<and> code c \<le> 32)
                  \<or> code c = 133 \<or> code c = 160)"

definition is_word :: "char \<Rightarrow> bool" where
  \<comment> \<open>\<open>\w\<close>: \<open>str.isalnum\<close> or underscore\<close>
  "is_word c = (is_digit c \<or> (65 \<le> code c \<and> code c \<le> 90) \<or> code c = 95
                 \<or> (97 \<le> code c \<and> code c \<le> 122)
                 \<or> code c = 170 \<or> code c = 178 \<or> code c = 179 \<or> code c = 181
                 \<or> code c = 185 \<or> code c = 186 \<or> (188 \<le> code c \<and> code c \<le> 190)
                 \<or> (192 \<le> code c \<and> code c \<le> 214) \<or> (216 \<le> code c \<and> code c \<le> 246)
                 \<or> 248 \<le> code c)"

definition is_mes_char :: "char \<Rightarrow> bool" where
  \<comment> \<open>the class of \<open>a\<close> to \<open>z\<close>, U+00F1 (n with tilde) and the period\<close>
  "is_mes_char c = ((97 \<le> code c \<and> code c \<le> 122) \<or> code c = 241 \<or> c = CHR ''.'')"

definition is_dot :: "char \<Rightarrow> bool" where
  "is_dot c = (c = CHR ''.'')"

definition not_newline :: "char \<Rightarrow> bool" where
  \<comment> \<open>the class \<open>.\<close> without DOTALL\<close>
  "not_newline c = (c \<noteq> CHR 0x0A)"

definition lower_char :: "char \<Rightarrow> char" where
  "lower_char c =
     (if (65 \<le> code c \<and> code c \<le> 90) \<or> (192 \<le> code c \<and> code c \<le> 222 \<and> code c \<noteq> 215)
      then char_of (code c + 32) else c)"

definition str_lower :: "string \<Rightarrow> string" where
  "str_lower s = map lower_char s"

definition str_strip :: "string \<Rightarrow> string" where
  "str_strip s = rev (dropWhile is_space (rev (dropWhile is_space s)))"

definition str_startswith :: "string \<Rightarrow> string \<Rightarrow> bool" where
  "str_startswith s p = (take (length p) s = p)"

text \<open>\<open>s.split(sep)\<close> for a non-empty separator: \<open>cur\<close> is the current piece, reversed.\<close>

fun split_from :: "string \<Rightarrow> string \<Rightarrow> string \<Rightarrow> string list" where
  "split_from sep cur [] = [rev cur]"
| "split_from sep cur (x # xs) =
     (if sep \<noteq> [] \<and> str_startswith (x # xs) sep
      then rev cur # split_from sep [] (drop (length sep - 1) xs)
      else split_from sep (x # cur) xs)"

definition str_split :: "string \<Rightarrow> string \<Rightarrow> string list" where
  "str_split s sep = split_from sep [] s"

definition str_join :: "string \<Rightarrow> string list \<Rightarrow> string" where
  "str_join sep xs = concat (case xs of [] \<Rightarrow> [] | y # ys \<Rightarrow> y # map (\<lambda>z. sep @ z) ys)"

text \<open>\<open>re.sub(r"\s+", " ", x)\<close>: every maximal run of whitespace becomes one space.\<close>

function sub_ws :: "string \<Rightarrow> string" where
  "sub_ws [] = []"
| "sub_ws (c # cs) =
     (if is_space c then CHR '' '' # sub_ws (dropWhile is_space cs) else c # sub_ws cs)"
  by pat_completeness auto
termination
  by (relation "measure length") (auto simp: length_dropWhile_le le_imp_less_Suc)

subsection \<open>Decimal numbers\<close>

definition digit_val :: "char \<Rightarrow> nat" where
  "digit_val c = code c - 48"

definition digit_char :: "nat \<Rightarrow> char" where
  "digit_char d = char_of (48 + d)"

definition digits_val :: "string \<Rightarrow> nat" where
  "digits_val s = foldl (\<lambda>a c. 10 * a + digit_val c) 0 s"

definition pad2 :: "nat \<Rightarrow> string" where
  \<comment> \<open>\<open>%02d\<close> for a number below 100\<close>
  "pad2 n = [digit_char (n div 10), digit_char (n mod 10)]"

definition pad4 :: "nat \<Rightarrow> string" where
  \<comment> \<open>\<open>%04d\<close> for a number below 10000\<close>
  "pad4 n = pad2 (n div 100) @ pad2 (n mod 100)"

fun str_nat :: "nat \<Rightarrow> string" where
  "str_nat n = (if n < 10 then [digit_char n] else str_nat (n div 10) @ [digit_char (n mod 10)])"

declare str_nat.simps [simp del]

datatype error =
    FormatError string          \<comment> \<open>\<open>ValueError("No pude leer el rango de fechas desde: ...")\<close>\<close>
  | UnknownMonthError string    \<comment> \<open>\<open>ValueError("Mes no reconocido: ...")\<close>\<close>
  | ValueError_int              \<comment> \<open>\<open>int()\<close> on a string that is no integer literal\<close>
  | ValueError_unpack           \<comment> \<open>unpacking a list that has not exactly two items\<close>
  | ValueError_date             \<comment> \<open>\<open>date()\<close> with a field out of range\<close>
  | ValueError_time             \<comment> \<open>\<open>time()\<close> with a field out of range\<close>

text \<open>
  \<open>int(x)\<close> on a string: surrounding whitespace is dropped, one sign is allowed, and the
  digits may be grouped by single underscores.
\<close>

fun int_body_ok :: "string \<Rightarrow> bool" where
  "int_body_ok [] = False"
| "int_body_ok [c] = is_digit c"
| "int_body_ok (c # d # cs) =
     (is_digit c \<and> (if d = CHR ''_'' then int_body_ok cs else int_body_ok (d # cs)))"

definition int_body :: "string \<Rightarrow> error + int" where
  "int_body b = (if int_body_ok b then Inr (int (digits_val (filter (\<lambda>c. c \<noteq> CHR ''_'') b)))
                 else Inl ValueError_int)"

definition py_int :: "string \<Rightarrow> error + int" where
  "py_int x =
     (case str_strip x of
        [] \<Rightarrow> Inl ValueError_int
      | c # cs \<Rightarrow>
          if c = CHR ''-'' then (case int_body cs of Inl e \<Rightarrow> Inl e | Inr v \<Rightarrow> Inr (- v))
          else if c = CHR ''+'' then int_body cs
          else int_body (c # cs))"

section \<open>Regular expressions\<close>

text \<open>
  The patterns of the source are sequences of literal characters, greedy repetitions of
  one character class, capturing parentheses (not nested), \<open>$\<close> and \<open>\b\<close>. A pattern is
  the list of its items in order; \<open>rmatch\<close> is the backtracking matcher of \<open>re\<close>: a greedy
  repetition first takes as many characters as it can and gives them back one at a time
  while the rest of the pattern fails. \<open>bef\<close> is the text before the current position,
  reversed; \<open>ms\<close> collects the positions at which groups open and close.
\<close>

datatype rx =
    Chr char
  | Rep "char \<Rightarrow> bool" nat "nat option"
  | Open
  | Close
  | Eol
  | WordB

fun first_some :: "'a option list \<Rightarrow> 'a option" where
  "first_some [] = None"
| "first_some (None # xs) = first_some xs"
| "first_some (Some x # xs) = Some x"

definition at_word_boundary :: "string \<Rightarrow> string \<Rightarrow> bool" where
  "at_word_boundary bef rest =
     ((case bef of [] \<Rightarrow> False | b # _ \<Rightarrow> is_word b) \<noteq> (case rest of [] \<Rightarrow> False | r # _ \<Rightarrow> is_word r))"

definition at_eol :: "string \<Rightarrow> bool" where
  \<comment> \<open>\<open>$\<close>: at the end, or before a newline that ends the string\<close>
  "at_eol rest = (rest = [] \<or> rest = [CHR 0x0A])"

definition rep_max :: "(char \<Rightarrow> bool) \<Rightarrow> nat option \<Rightarrow> string \<Rightarrow> nat" where
  "rep_max p hi rest =
     (let n = length (takeWhile p rest) in case hi of None \<Rightarrow> n | Some h \<Rightarrow> min h n)"

fun rmatch :: "rx list \<Rightarrow> string \<Rightarrow> string \<Rightarrow> nat list \<Rightarrow> nat list option" where
  "rmatch [] bef rest ms = Some ms"
| "rmatch (Chr c # rs) bef rest ms =
     (case rest of [] \<Rightarrow> None
      | x # xs \<Rightarrow> if x = c then rmatch rs (x # bef) xs ms else None)"
| "rmatch (Rep p lo hi # rs) bef rest ms =
     first_some (map (\<lambda>k. rmatch rs (rev (take k rest) @ bef) (drop k rest) ms)
                     (rev [lo ..< Suc (rep_max p hi rest)]))"
| "rmatch (Open # rs) bef rest ms = rmatch rs bef rest (ms @ [length bef])"
| "rmatch (Close # rs) bef rest ms = rmatch rs bef rest (ms @ [length bef])"
| "rmatch (Eol # rs) bef rest ms = (if at_eol rest then rmatch rs bef rest ms else None)"
| "rmatch (WordB # rs) bef rest ms =
     (if at_word_boundary bef rest then rmatch rs bef rest ms else None)"

fun is_paren :: "rx \<Rightarrow> bool" where
  "is_paren Open = True"
| "is_paren Close = True"
| "is_paren r = False"

definition re_match :: "rx list \<Rightarrow> string \<Rightarrow> nat list option" where
  \<comment> \<open>\<open>re.match\<close>: at the start of the string only\<close>
  "re_match rs s = rmatch rs [] s []"

definition re_search :: "rx list \<Rightarrow> string \<Rightarrow> nat list option" where
  \<comment> \<open>\<open>re.search\<close>: the leftmost position at which the pattern matches\<close>
  "re_search rs s =
     first_some (map (\<lambda>i. rmatch rs (rev (take i s)) (drop i s) []) [0 ..< Suc (length s)])"

fun groups :: "string \<Rightarrow> nat list \<Rightarrow> string list" where
  \<comment> \<open>the text of each group, from the positions of its parentheses\<close>
  "groups s (a # b # ms) = take (b - a) (drop a s) # groups s ms"
| "groups s ms = []"


section \<open>Dates and times of day\<close>

record date =
  year :: nat
  month :: nat
  day :: nat

record dtime =
  hour :: nat
  minute :: nat
  second :: nat

definition is_leap :: "nat \<Rightarrow> bool" where
  "is_leap y = (y mod 4 = 0 \<and> (y mod 100 \<noteq> 0 \<or> y mod 400 = 0))"

definition days_in_month :: "nat \<Rightarrow> nat \<Rightarrow> nat" where
  "days_in_month y m =
     (if m = 2 then (if is_leap y then 29 else 28)
      else if m = 4 \<or> m = 6 \<or> m = 9 \<or> m = 11 then 30 else 31)"

definition valid_date :: "int \<Rightarrow> int \<Rightarrow> int \<Rightarrow> bool" where
  "valid_date y m d =
     (1 \<le> y \<and> y \<le> 9999 \<and> 1 \<le> m \<and> m \<le> 12 \<and> 1 \<le> d \<and> d \<le> int (days_in_month (nat y) (nat m)))"

definition mk_date :: "int \<Rightarrow> int \<Rightarrow> int \<Rightarrow> error + date" where
  \<comment> \<open>\<open>date(y, m, d)\<close>\<close>
  "mk_date y m d =
     (if valid_date y m d then Inr \<lparr>year = nat y, month = nat m, day = nat d\<rparr>
      else Inl ValueError_date)"

definition mk_time :: "int \<Rightarrow> int \<Rightarrow> error + dtime" where
  \<comment> \<open>\<open>dtime(hour=h, minute=m)\<close>: seconds are zero\<close>
  "mk_time h m =
     (if 0 \<le> h \<and> h \<le> 23 \<and> 0 \<le> m \<and> m \<le> 59
      then Inr \<lparr>hour = nat h, minute = nat m, second = 0\<rparr>
      else Inl ValueError_time)"

definition isoformat :: "date \<Rightarrow> string" where
  "isoformat f = pad4 (year f) @ ''-'' @ pad2 (month f) @ ''-'' @ pad2 (day f)"

definition strftime_Ymd :: "date \<Rightarrow> string" where
  \<comment> \<open>\<open>strftime('%Y%m%d')\<close>; the year has four digits, as documented (below the year 1000
      the padding is left to the C library)\<close>
  "strftime_Ymd f = pad4 (year f) @ pad2 (month f) @ pad2 (day f)"

definition strftime_HM_colon :: "dtime \<Rightarrow> string" where
  \<comment> \<open>\<open>strftime('%H:%M')\<close>\<close>
  "strftime_HM_colon t = pad2 (hour t) @ '':'' @ pad2 (minute t)"

definition strftime_HM :: "dtime \<Rightarrow> string" where
  \<comment> \<open>\<open>strftime('%H%M')\<close>\<close>
  "strftime_HM t = pad2 (hour t) @ pad2 (minute t)"

definition strftime_HMS :: "dtime \<Rightarrow> string" where
  \<comment> \<open>\<open>strftime('%H%M%S')\<close>\<close>
  "strftime_HMS t = pad2 (hour t) @ pad2 (minute t) @ pad2 (second t)"

section \<open>Utilities of the source\<close>

definition TZID :: string where
  "TZID = ''America/Santiago''"

definition MESES :: "string \<rightharpoonup> int" where
  "MESES = map_of [(''ene'', 1), (''feb'', 2), (''mar'', 3), (''abr'', 4), (''may'', 5), (''jun'', 6),
                   (''jul'', 7), (''ago'', 8), (''sep'', 9), (''oct'', 10), (''nov'', 11), (''dic'', 12)]"

text \<open>
  \<open>html.unescape\<close> belongs to the standard library and decodes a table of some two
  thousand entity names; it is a parameter \<open>unescape\<close> of every function that cleans text.
\<close>

definition limpiar_texto :: "(string \<Rightarrow> string) \<Rightarrow> string \<Rightarrow> string" where
  "limpiar_texto unescape x = str_strip (sub_ws (unescape x))"

definition RX_RANGO :: "rx list" where
  \<comment> \<open>\<open>(\d{1,2})\s*-\s*(\d{1,2})\s+(M+)\.?\s+(\d{4})\<close>, where \<open>M\<close> is the class \<^const>\<open>is_mes_char\<close>\<close>
  "RX_RANGO =
     [Open, Rep is_digit 1 (Some 2), Close, Rep is_space 0 None, Chr CHR ''-'', Rep is_space 0 None,
      Open, Rep is_digit 1 (Some 2), Close, Rep is_space 1 None,
      Open, Rep is_mes_char 1 None, Close, Rep is_dot 0 (Some 1), Rep is_space 1 None,
      Open, Rep is_digit 4 (Some 4), Close]"

definition parse_fecha_rango :: "string \<Rightarrow> error + (int \<times> int \<times> int \<times> int)" where
  \<comment> \<open>a match of the pattern has four groups, so the last case below is never taken\<close>
  "parse_fecha_rango label =
     (let txt = str_lower (str_strip label) in
      case re_search RX_RANGO txt of
        None \<Rightarrow> Inl (FormatError label)
      | Some ms \<Rightarrow>
          (case groups txt ms of
             [d1, d2, mes_txt0, anio] \<Rightarrow>
               (let mes_txt = filter (\<lambda>c. c \<noteq> CHR ''.'') mes_txt0 in
                case MESES mes_txt of
                  None \<Rightarrow> Inl (UnknownMonthError mes_txt)
                | Some mes \<Rightarrow>
                    (case py_int d1 of Inl e \<Rightarrow> Inl e | Inr i1 \<Rightarrow>
                     case py_int d2 of Inl e \<Rightarrow> Inl e | Inr i2 \<Rightarrow>
                     case py_int anio of Inl e \<Rightarrow> Inl e | Inr a \<Rightarrow>
                     Inr (i1, i2, mes, a)))
           | _ \<Rightarrow> Inl (FormatError label)))"

fun map_int :: "string list \<Rightarrow> error + int list" where
  \<comment> \<open>\<open>[int(x) for x in xs]\<close>: the first failure ends the comprehension\<close>
  "map_int [] = Inr []"
| "map_int (x # xs) =
     (case py_int x of Inl e \<Rightarrow> Inl e
      | Inr v \<Rightarrow> (case map_int xs of Inl e \<Rightarrow> Inl e | Inr vs \<Rightarrow> Inr (v # vs)))"

definition hhmm_to_time :: "string \<Rightarrow> error + dtime" where
  "hhmm_to_time hhmm =
     (case map_int (str_split hhmm '':'') of
        Inl e \<Rightarrow> Inl e
      | Inr [h, m] \<Rightarrow> mk_time h m
      | Inr _ \<Rightarrow> Inl ValueError_unpack)"

section \<open>The snapshot of one week\<close>

text \<open>
  The markup is parsed by BeautifulSoup, a library. A snapshot is modelled by what the
  source's queries on the parsed document return: an element is the list of its text
  pieces in document order, and \<open>get_text(sep)\<close> joins them.
\<close>

type_synonym element = "string list"

definition get_text :: "string \<Rightarrow> element \<Rightarrow> string" where
  "get_text sep el = str_join sep el"

record tabla =
  thead_tr :: "element list option"   \<comment> \<open>the cells of \<open>thead tr\<close>, if there is such a row\<close>
  tbody_tr :: "element list list"     \<comment> \<open>the cells of every \<open>tbody tr\<close>\<close>

record article =
  schedule_title :: "element option"  \<comment> \<open>\<open>.schedule-title\<close>\<close>
  schedule_item_list :: "element list" \<comment> \<open>\<open>.schedule-item-list > *\<close>\<close>

record snapshot =
  rango_label :: "string option"      \<comment> \<open>\<open>get_text(strip=True)\<close> of the element at \<open>SEL_RANGO_LABEL\<close>\<close>
  rango_node :: "string option"       \<comment> \<open>the text node that \<open>soup.find(string=...)\<close> returns\<close>
  horario_table :: "tabla option"     \<comment> \<open>\<open>SEL_TABLA\<close>\<close>
  schedule_mob :: "article list"      \<comment> \<open>\<open>#scheduleMob .schedule article\<close>\<close>

type_synonym evento = "date \<times> dtime \<times> dtime \<times> string \<times> string"

section \<open>The tabular strategy\<close>

definition RX_DIA_FIN :: "rx list" where
  \<comment> \<open>\<open>(\d{1,2})$\<close>\<close>
  "RX_DIA_FIN = [Open, Rep is_digit 1 (Some 2), Close, Eol]"

definition RX_DIA_B :: "rx list" where
  \<comment> \<open>\<open>\b(\d{1,2})\b\<close>\<close>
  "RX_DIA_B = [WordB, Open, Rep is_digit 1 (Some 2), Close, WordB]"

definition RX_BLOQUE :: "rx list" where
  \<comment> \<open>\<open>(\d{1,2}:\d{2})\s*-\s*(\d{1,2}:\d{2})\<close>\<close>
  "RX_BLOQUE =
     [Open, Rep is_digit 1 (Some 2), Chr CHR '':'', Rep is_digit 2 (Some 2), Close,
      Rep is_space 0 None, Chr CHR ''-'', Rep is_space 0 None,
      Open, Rep is_digit 1 (Some 2), Chr CHR '':'', Rep is_digit 2 (Some 2), Close]"

definition dia_en_header :: "string \<Rightarrow> string option" where
  \<comment> \<open>group 1 of \<open>re.search(r"(\d{1,2})$", h) or re.search(r"\b(\d{1,2})\b", h)\<close>\<close>
  "dia_en_header h =
     (case re_search RX_DIA_FIN h of
        Some ms \<Rightarrow> (case groups h ms of g # _ \<Rightarrow> Some g | [] \<Rightarrow> None)
      | None \<Rightarrow>
          (case re_search RX_DIA_B h of
             Some ms \<Rightarrow> (case groups h ms of g # _ \<Rightarrow> Some g | [] \<Rightarrow> None)
           | None \<Rightarrow> None))"

definition fecha_de_dia :: "int \<Rightarrow> int \<Rightarrow> string \<Rightarrow> error + date" where
  \<comment> \<open>\<open>date(anio, mes, int(m.group(1)))\<close>\<close>
  "fecha_de_dia anio mes g =
     (case py_int g of Inl e \<Rightarrow> Inl e | Inr d \<Rightarrow> mk_date anio mes d)"

fun mapear_fechas :: "int \<Rightarrow> int \<Rightarrow> string list \<Rightarrow> error + date option list" where
  "mapear_fechas anio mes [] = Inr []"
| "mapear_fechas anio mes (h # hs) =
     (case dia_en_header h of
        None \<Rightarrow> (case mapear_fechas anio mes hs of Inl e \<Rightarrow> Inl e | Inr fs \<Rightarrow> Inr (None # fs))
      | Some g \<Rightarrow>
          (case fecha_de_dia anio mes g of
             Inl e \<Rightarrow> Inl e
           | Inr f \<Rightarrow> (case mapear_fechas anio mes hs of
                         Inl e \<Rightarrow> Inl e | Inr fs \<Rightarrow> Inr (Some f # fs))))"

definition fecha_celda ::
  "int \<Rightarrow> int \<Rightarrow> date option list \<Rightarrow> string list \<Rightarrow> nat \<Rightarrow> error + date option" where
  "fecha_celda anio mes fechas headers_dias idx =
     (if idx < length fechas \<and> fechas ! idx \<noteq> None then Inr (fechas ! idx)
      else
        (let hh = (if idx < length headers_dias then headers_dias ! idx else []) in
         case dia_en_header hh of
           None \<Rightarrow> Inr None
         | Some g \<Rightarrow> (case fecha_de_dia anio mes g of Inl e \<Rightarrow> Inl e | Inr f \<Rightarrow> Inr (Some f))))"

definition sin_contenido :: "string \<Rightarrow> bool" where
  \<comment> \<open>\<open>not contenido or contenido.lower().startswith("sin clases")\<close>\<close>
  "sin_contenido contenido =
     (contenido = [] \<or> str_startswith (str_lower contenido) ''sin clases'')"

definition resumen_tabla :: "string \<Rightarrow> string" where
  "resumen_tabla contenido =
     (case filter (\<lambda>x. x \<noteq> []) (map str_strip (str_split contenido '' / '')) of
        [] \<Rightarrow> contenido
      | p # _ \<Rightarrow> p)"

fun celdas_loop ::
  "(string \<Rightarrow> string) \<Rightarrow> int \<Rightarrow> int \<Rightarrow> date option list \<Rightarrow> string list \<Rightarrow> dtime \<Rightarrow> dtime
     \<Rightarrow> (nat \<times> element) list \<Rightarrow> error + evento list" where
  "celdas_loop unescape anio mes fechas headers_dias t_ini t_fin [] = Inr []"
| "celdas_loop unescape anio mes fechas headers_dias t_ini t_fin ((idx, td) # tds) =
     (let contenido = limpiar_texto unescape (get_text '' '' td) in
      if sin_contenido contenido
      then celdas_loop unescape anio mes fechas headers_dias t_ini t_fin tds
      else
        (case fecha_celda anio mes fechas headers_dias idx of
           Inl e \<Rightarrow> Inl e
         | Inr None \<Rightarrow> celdas_loop unescape anio mes fechas headers_dias t_ini t_fin tds
         | Inr (Some f) \<Rightarrow>
             (case celdas_loop unescape anio mes fechas headers_dias t_ini t_fin tds of
                Inl e \<Rightarrow> Inl e
              | Inr evs \<Rightarrow> Inr ((f, t_ini, t_fin, resumen_tabla contenido, contenido) # evs))))"

definition bloque_horario :: "string \<Rightarrow> (error + dtime \<times> dtime) option" where
  \<comment> \<open>the time block of a row: \<open>None\<close> when the first cell does not start with one (the row is
      skipped), else the two times or the exception of \<open>hhmm_to_time\<close>\<close>
  "bloque_horario bloque =
     (case re_match RX_BLOQUE bloque of
        None \<Rightarrow> None
      | Some ms \<Rightarrow>
          Some (case hhmm_to_time (groups bloque ms ! 0) of Inl e \<Rightarrow> Inl e | Inr t_ini \<Rightarrow>
                case hhmm_to_time (groups bloque ms ! 1) of Inl e \<Rightarrow> Inl e | Inr t_fin \<Rightarrow>
                Inr (t_ini, t_fin)))"

fun filas_loop ::
  "(string \<Rightarrow> string) \<Rightarrow> int \<Rightarrow> int \<Rightarrow> date option list \<Rightarrow> string list
     \<Rightarrow> element list list \<Rightarrow> error + evento list" where
  "filas_loop unescape anio mes fechas headers_dias [] = Inr []"
| "filas_loop unescape anio mes fechas headers_dias (tr # trs) =
     (case tr of
        [] \<Rightarrow> filas_loop unescape anio mes fechas headers_dias trs
      | c0 # cs \<Rightarrow>
          (case bloque_horario (limpiar_texto unescape (get_text [] c0)) of
             None \<Rightarrow> filas_loop unescape anio mes fechas headers_dias trs
           | Some (Inl e) \<Rightarrow> Inl e
           | Some (Inr (t_ini, t_fin)) \<Rightarrow>
               (case celdas_loop unescape anio mes fechas headers_dias t_ini t_fin
                       (enumerate 0 cs) of Inl e \<Rightarrow> Inl e | Inr evs \<Rightarrow>
                case filas_loop unescape anio mes fechas headers_dias trs of
                  Inl e \<Rightarrow> Inl e | Inr evs' \<Rightarrow> Inr (evs @ evs'))))"

definition etiqueta_tabla :: "snapshot \<Rightarrow> string" where
  \<comment> \<open>the label the tabular strategy reads: the element's text, else the text node found\<close>
  "etiqueta_tabla html =
     (let etiqueta = (case rango_label html of Some t \<Rightarrow> t | None \<Rightarrow> []) in
      if etiqueta = []
      then (case rango_node html of Some n \<Rightarrow> str_strip n | None \<Rightarrow> [])
      else etiqueta)"

definition extraer_eventos_desde_html ::
  "(string \<Rightarrow> string) \<Rightarrow> snapshot \<Rightarrow> error + evento list" where
  "extraer_eventos_desde_html unescape html =
     (case parse_fecha_rango (etiqueta_tabla html) of
        Inl e \<Rightarrow> Inl e
      | Inr (d1, d2, mes, anio) \<Rightarrow>
          (case horario_table html of
             None \<Rightarrow> Inr []
           | Some tabla \<Rightarrow>
               (case thead_tr tabla of
                  None \<Rightarrow> Inr []
                | Some header_cells \<Rightarrow>
                    (let headers_dias =
                       map (\<lambda>c. limpiar_texto unescape (get_text [] c)) (drop 1 header_cells) in
                     case mapear_fechas anio mes headers_dias of
                       Inl e \<Rightarrow> Inl e
                     | Inr fechas \<Rightarrow>
                         filas_loop unescape anio mes fechas headers_dias (tbody_tr tabla)))))"

section \<open>The list-based strategy\<close>

definition RX_ITEM :: "rx list" where
  \<comment> \<open>\<open>(\d{1,2}:\d{2})\s*-\s*(\d{1,2}:\d{2})\s+(.+)\<close>\<close>
  "RX_ITEM = RX_BLOQUE @ [Rep is_space 1 None, Open, Rep not_newline 1 None, Close]"

definition resumen_movil :: "string \<Rightarrow> string" where
  \<comment> \<open>\<open>contenido.split(" / ")[0]\<close>; a split has at least one piece\<close>
  "resumen_movil contenido = (case str_split contenido '' / '' of p # _ \<Rightarrow> p | [] \<Rightarrow> [])"

fun items_loop :: "(string \<Rightarrow> string) \<Rightarrow> date \<Rightarrow> element list \<Rightarrow> error + evento list" where
  "items_loop unescape f [] = Inr []"
| "items_loop unescape f (item # items) =
     (let txt = limpiar_texto unescape (get_text '' '' item) in
      if sin_contenido txt then items_loop unescape f items
      else
        (case re_match RX_ITEM txt of
           None \<Rightarrow> items_loop unescape f items
         | Some ms \<Rightarrow>
             (case hhmm_to_time (groups txt ms ! 0) of Inl e \<Rightarrow> Inl e | Inr t_ini \<Rightarrow>
              case hhmm_to_time (groups txt ms ! 1) of Inl e \<Rightarrow> Inl e | Inr t_fin \<Rightarrow>
              (let contenido = str_strip (groups txt ms ! 2) in
               case items_loop unescape f items of
                 Inl e \<Rightarrow> Inl e
               | Inr evs \<Rightarrow> Inr ((f, t_ini, t_fin, resumen_movil contenido, contenido) # evs)))))"

fun articulos_loop ::
  "(string \<Rightarrow> string) \<Rightarrow> int \<Rightarrow> int \<Rightarrow> article list \<Rightarrow> error + evento list" where
  "articulos_loop unescape anio mes [] = Inr []"
| "articulos_loop unescape anio mes (art # arts) =
     (case schedule_title art of
        None \<Rightarrow> articulos_loop unescape anio mes arts
      | Some titulo_el \<Rightarrow>
          (let titulo = limpiar_texto unescape (get_text [] titulo_el) in
           case re_search RX_DIA_FIN titulo of
             None \<Rightarrow> articulos_loop unescape anio mes arts
           | Some ms \<Rightarrow>
               (case fecha_de_dia anio mes (groups titulo ms ! 0) of Inl e \<Rightarrow> Inl e | Inr f \<Rightarrow>
                case items_loop unescape f (schedule_item_list art) of Inl e \<Rightarrow> Inl e | Inr evs \<Rightarrow>
                case articulos_loop unescape anio mes arts of
                  Inl e \<Rightarrow> Inl e | Inr evs' \<Rightarrow> Inr (evs @ evs'))))"

definition etiqueta_movil :: "snapshot \<Rightarrow> string" where
  "etiqueta_movil html = (case rango_label html of Some t \<Rightarrow> t | None \<Rightarrow> [])"

definition extraer_eventos_fallback_movil ::
  "(string \<Rightarrow> string) \<Rightarrow> snapshot \<Rightarrow> error + evento list" where
  "extraer_eventos_fallback_movil unescape html =
     (case parse_fecha_rango (etiqueta_movil html) of
        Inl e \<Rightarrow> Inl e
      | Inr (d1, d2, mes, anio) \<Rightarrow> articulos_loop unescape anio mes (schedule_mob html))"

section \<open>Accumulation and deduplication\<close>

text \<open>
  A Python \<open>dict\<close> keeps its keys in the order of their first insertion; storing under a
  key that is present replaces the value in place.
\<close>

fun dict_set :: "('k \<times> 'v) list \<Rightarrow> 'k \<Rightarrow> 'v \<Rightarrow> ('k \<times> 'v) list" where
  "dict_set [] k v = [(k, v)]"
| "dict_set ((k', v') # d) k v = (if k' = k then (k, v) # d else (k', v') # dict_set d k v)"

definition dict_values :: "('k \<times> 'v) list \<Rightarrow> 'v list" where
  "dict_values d = map snd d"

type_synonym identity = "string \<times> string \<times> string \<times> string \<times> string"

definition key :: "evento \<Rightarrow> identity" where
  "key ev =
     (case ev of (f, t_ini, t_fin, resumen, descripcion) \<Rightarrow>
        (isoformat f, strftime_HM_colon t_ini, strftime_HM_colon t_fin, resumen, descripcion))"

definition llenar :: "evento list \<Rightarrow> (identity \<times> evento) list" where
  \<comment> \<open>the comprehension \<open>{key(ev): ev for ev in acumulados}\<close>\<close>
  "llenar acumulados = foldl (\<lambda>d ev. dict_set d (key ev) ev) [] acumulados"

definition uniq :: "evento list \<Rightarrow> evento list" where
  \<comment> \<open>\<open>list({key(ev): ev for ev in acumulados}.values())\<close>\<close>
  "uniq acumulados = dict_values (llenar acumulados)"

text \<open>Two events of a Monday and a Tuesday, as the extractors build them.\<close>

definition ev_lunes :: evento where
  "ev_lunes = (\<lparr>year = 2025, month = 8, day = 4\<rparr>, \<lparr>hour = 8, minute = 0, second = 0\<rparr>,
               \<lparr>hour = 9, minute = 30, second = 0\<rparr>, ''Calculo I'', ''Calculo I / Sala 301'')"

definition ev_martes :: evento where
  "ev_martes = (\<lparr>year = 2025, month = 8, day = 5\<rparr>, \<lparr>hour = 10, minute = 0, second = 0\<rparr>,
                \<lparr>hour = 11, minute = 30, second = 0\<rparr>, ''Fisica'', ''Fisica / Lab 2'')"


section \<open>The calendar document\<close>

definition CRLF :: string where
  "CRLF = [CHR 0x0D, CHR 0x0A]"

definition dt_field :: "date \<Rightarrow> dtime \<Rightarrow> string" where
  \<comment> \<open>the value of \<open>dtstart\<close> and of \<open>dtend\<close> in \<open>construir_evento\<close>\<close>
  "dt_field fecha t = ''TZID='' @ TZID @ '':'' @ strftime_Ymd fecha @ ''T'' @ strftime_HMS t"

definition uid_evento :: "nat \<Rightarrow> date \<Rightarrow> dtime \<Rightarrow> string" where
  \<comment> \<open>the value of \<open>uid\<close> in \<open>construir_evento\<close>\<close>
  "uid_evento uid_counter fecha t_ini =
     ''inacap-'' @ strftime_Ymd fecha @ ''-'' @ strftime_HM t_ini @ ''-'' @ str_nat uid_counter @ ''@siga''"

definition construir_evento ::
  "string \<Rightarrow> nat \<Rightarrow> string \<Rightarrow> date \<Rightarrow> dtime \<Rightarrow> dtime \<Rightarrow> string \<Rightarrow> string" where
  \<comment> \<open>\<open>dtstamp\<close>, the text of \<open>datetime.utcnow()\<close>, is a parameter\<close>
  "construir_evento dtstamp uid_counter resumen fecha t_ini t_fin descripcion =
     (let resumen' = str_strip (map (\<lambda>c. if c = CHR 0x0A then CHR '' '' else c) resumen);
          desc = concat (map (\<lambda>c. if c = CHR 0x0A then [CHR 0x5C, CHR ''n''] else [c]) descripcion);
          dtstart = dt_field fecha t_ini;
          dtend = dt_field fecha t_fin;
          uid = uid_evento uid_counter fecha t_ini
      in ''BEGIN:VEVENT'' @ CRLF
         @ ''UID:'' @ uid @ CRLF
         @ ''DTSTAMP:'' @ dtstamp @ CRLF
         @ ''DTSTART;'' @ dtstart @ CRLF
         @ ''DTEND;'' @ dtend @ CRLF
         @ ''SUMMARY:'' @ resumen' @ CRLF
         @ ''DESCRIPTION:'' @ desc @ CRLF
         @ ''END:VEVENT'')"

definition bloques :: "(nat \<Rightarrow> string) \<Rightarrow> evento list \<Rightarrow> string list" where
  \<comment> \<open>\<open>[construir_evento(i + 1, ev[3], ev[0], ev[1], ev[2], ev[4]) for i, ev in enumerate(eventos)]\<close>;
      \<open>reloj i\<close> is the time stamp read while building event \<open>i\<close>\<close>
  "bloques reloj eventos =
     map (\<lambda>(i, ev). case ev of (f, t_ini, t_fin, resumen, descripcion) \<Rightarrow>
            construir_evento (reloj i) (i + 1) resumen f t_ini t_fin descripcion)
         (enumerate 0 eventos)"

definition uids_ics :: "evento list \<Rightarrow> string list" where
  \<comment> \<open>the \<open>uid\<close> of each block of \<open>bloques\<close>, in order\<close>
  "uids_ics eventos =
     map (\<lambda>(i, ev). case ev of (f, t_ini, t_fin, resumen, descripcion) \<Rightarrow>
            uid_evento (i + 1) f t_ini)
         (enumerate 0 eventos)"

definition vtimezone :: string where
  "vtimezone =
     ''BEGIN:VTIMEZONE'' @ CRLF
     @ ''TZID:'' @ TZID @ CRLF
     @ ''X-LIC-LOCATION:'' @ TZID @ CRLF
     @ ''BEGIN:STANDARD'' @ CRLF
     @ ''TZOFFSETFROM:-0300'' @ CRLF
     @ ''TZOFFSETTO:-0400'' @ CRLF
     @ ''TZNAME:-04'' @ CRLF
     @ ''DTSTART:19700426T000000'' @ CRLF
     @ ''RRULE:FREQ=YEARLY;BYMONTH=4;BYDAY=4SU'' @ CRLF
     @ ''END:STANDARD'' @ CRLF
     @ ''BEGIN:DAYLIGHT'' @ CRLF
     @ ''TZOFFSETFROM:-0400'' @ CRLF
     @ ''TZOFFSETTO:-0300'' @ CRLF
     @ ''TZNAME:-03'' @ CRLF
     @ ''DTSTART:19700906T000000'' @ CRLF
     @ ''RRULE:FREQ=YEARLY;BYMONTH=9;BYDAY=1SU'' @ CRLF
     @ ''END:DAYLIGHT'' @ CRLF
     @ ''END:VTIMEZONE'' @ CRLF"

definition exportar_ics :: "(nat \<Rightarrow> string) \<Rightarrow> evento list \<Rightarrow> string \<Rightarrow> string" where
  \<comment> \<open>the text \<open>contenido\<close> that \<open>exportar_ics\<close> writes\<close>
  "exportar_ics reloj eventos nombre =
     ''BEGIN:VCALENDAR'' @ CRLF
     @ ''PRODID:-//INACAP->GoogleCalendar//ES'' @ CRLF
     @ ''VERSION:2.0'' @ CRLF
     @ ''CALSCALE:GREGORIAN'' @ CRLF
     @ ''METHOD:PUBLISH'' @ CRLF
     @ ''X-WR-CALNAME:'' @ nombre @ CRLF
     @ ''X-WR-TIMEZONE:America/Santiago'' @ CRLF
     @ vtimezone
     @ str_join CRLF (bloques reloj eventos) @ CRLF
     @ ''END:VCALENDAR'' @ CRLF"

section \<open>The push to the remote calendar\<close>

text \<open>
  \<open>hashlib.sha1(...).hexdigest()\<close> belongs to the standard library; it is the parameter
  \<open>sha1_hex\<close>.
\<close>

definition event_id_from_uid :: "(string \<Rightarrow> string) \<Rightarrow> string \<Rightarrow> string" where
  \<comment> \<open>\<open>_event_id_from_uid\<close>\<close>
  "event_id_from_uid sha1_hex uid = ''inacap-'' @ sha1_hex uid"

definition uid_push :: "nat \<Rightarrow> date \<Rightarrow> dtime \<Rightarrow> string" where
  \<comment> \<open>the value of \<open>uid\<close> in \<open>push_to_google_calendar\<close>\<close>
  "uid_push i f t_ini =
     ''inacap-'' @ strftime_Ymd f @ ''-'' @ strftime_HM t_ini @ ''-'' @ str_nat i @ ''@siga''"

definition push_to_google_calendar ::
  "(string \<Rightarrow> string) \<Rightarrow> evento list \<Rightarrow> (string \<times> string \<times> string \<times> string) list" where
  \<comment> \<open>for each event, in order: its \<open>uid\<close> and the \<open>id\<close>, \<open>summary\<close> and \<open>description\<close> of the
      body sent to the service\<close>
  "push_to_google_calendar sha1_hex eventos =
     map (\<lambda>(i, ev). case ev of (f, t_ini, t_fin, resumen, descripcion) \<Rightarrow>
            (let uid = uid_push i f t_ini; event_id = event_id_from_uid sha1_hex uid
             in (uid, event_id, resumen, descripcion)))
         (enumerate 1 eventos)"

section \<open>The run\<close>

text \<open>
  The lines that \<open>main\<close> and \<open>exportar_ics\<close> print: the announcement of the fallback, the
  count of exported events, and the error that ended the run.
\<close>

datatype salida =
    Probando_fallback
  | Listo nat
  | ERROR error

text \<open>
  The browser is outside the model: a run is given the snapshot captured for each week, in
  order, and is one without \<open>--dump\<close> and without \<open>--push\<close>. The line about the screenshot,
  which depends on the browser, is left out. The loop returns what it printed together
  with the accumulated events, or with the exception that ended it.
\<close>

fun capturar_semanas ::
  "(string \<Rightarrow> string) \<Rightarrow> snapshot list \<Rightarrow> evento list \<Rightarrow> salida list
     \<Rightarrow> (error + evento list) \<times> salida list" where
  "capturar_semanas unescape [] acumulados out = (Inr acumulados, out)"
| "capturar_semanas unescape (html # htmls) acumulados out =
     (case extraer_eventos_desde_html unescape html of
        Inl e \<Rightarrow> (Inl e, out)
      | Inr evs \<Rightarrow>
          if evs = []
          then (case extraer_eventos_fallback_movil unescape html of
                  Inl e \<Rightarrow> (Inl e, out @ [Probando_fallback])
                | Inr evs' \<Rightarrow>
                    capturar_semanas unescape htmls (acumulados @ evs') (out @ [Probando_fallback]))
          else capturar_semanas unescape htmls (acumulados @ evs) out)"

record resultado =
  exit_code :: nat
  stdout :: "salida list"
  exportados :: "evento list option"   \<comment> \<open>the events given to \<open>exportar_ics\<close>, if it was reached\<close>

definition main :: "(string \<Rightarrow> string) \<Rightarrow> snapshot list \<Rightarrow> resultado" where
  "main unescape htmls =
     (case capturar_semanas unescape htmls [] [] of
        (Inl e, out) \<Rightarrow> \<lparr>exit_code = 2, stdout = out @ [ERROR e], exportados = None\<rparr>
      | (Inr acumulados, out) \<Rightarrow>
          (let u = uniq acumulados
           in \<lparr>exit_code = 0, stdout = out @ [Listo (length u)], exportados = Some u\<rparr>))"
section \<open>Reading a document back\<close>




section \<open>Example snapshots\<close>

definition html_tabla :: snapshot where
  \<comment> \<open>a week in the tabular layout\<close>
  "html_tabla =
     \<lparr>rango_label = Some ''04 - 09 ago. 2025'', rango_node = None,
      horario_table = Some
        \<lparr>thead_tr = Some [[''Hora''], [''Lunes 04''], [''Martes 05''], [''Notas'']],
         tbody_tr = [[[''08:00 - 09:30''], [''Calculo I / Sala 301''], [''Sin clases''], [''Ver aula'']],
                     [[''Almuerzo'']]]\<rparr>,
      schedule_mob = []\<rparr>"

definition html_movil :: snapshot where
  \<comment> \<open>a week in the list layout: no table\<close>
  "html_movil =
     \<lparr>rango_label = Some ''11 - 16 ago. 2025'', rango_node = None,
      horario_table = None,
      schedule_mob =
        [\<lparr>schedule_title = Some [''Lunes 11''],
          schedule_item_list = [[''08:00 - 09:30'', ''Calculo I / Sala 301''], [''Sin clases'']]\<rparr>]\<rparr>"

definition html_sin_rango :: snapshot where
  \<comment> \<open>the list layout under a label that is no range\<close>
  "html_sin_rango =
     \<lparr>rango_label = Some ''Semana actual'', rango_node = None,
      horario_table = None,
      schedule_mob =
        [\<lparr>schedule_title = Some [''Lunes 11''],
          schedule_item_list = [[''08:00 - 09:30'', ''Calculo I / Sala 301'']]\<rparr>]\<rparr>"

definition html_dia_31 :: snapshot where
  \<comment> \<open>a header with day 31 under a label of September\<close>
  "html_dia_31 =
     \<lparr>rango_label = Some ''01 - 06 sep. 2025'', rango_node = None,
      horario_table = Some
        \<lparr>thead_tr = Some [[''Hora''], [''Lunes 01''], [''Martes 31'']],
         tbody_tr = [[[''08:00 - 09:30''], [''Calculo I / Sala 301''], [''Fisica'']]]\<rparr>,
      schedule_mob = []\<rparr>"


section \<open>Cleaned text\<close>

text \<open>
  What \<open>limpiar_texto\<close> returns: text without whitespace at either end, in which every
  whitespace character is a space and no two of them are adjacent.
\<close>

fun sin_dobles :: "string \<Rightarrow> bool" where
  "sin_dobles (a # b # cs) = (\<not> (is_space a \<and> is_space b) \<and> sin_dobles (b # cs))"
| "sin_dobles cs = True"

definition limpio :: "string \<Rightarrow> bool" where
  "limpio c =
     ((c = [] \<or> (\<not> is_space (hd c) \<and> \<not> is_space (last c)))
      \<and> list_all (\<lambda>x. is_space x \<longrightarrow> x = CHR '' '') c
      \<and> sin_dobles c)"

definition primer_segmento_barra :: "string \<Rightarrow> string" where
  \<comment> \<open>the title in the spec's words: the first segment delimited by a slash\<close>
  "primer_segmento_barra c = takeWhile (\<lambda>x. x \<noteq> CHR ''/'') c"

section \<open>Deduplication keeps one event per identity\<close>

lemma dict_set_keys:
  "map fst (dict_set d k v) = (if k \<in> fst ` set d then map fst d else map fst d @ [k])"
proof (induction d)
  case Nil
  then show ?case by simp
next
  case (Cons p d)
  obtain k' v' where p: "p = (k', v')" by (cases p)
  show ?case using Cons by (cases "k' = k") (simp_all add: p)
qed

lemma dict_set_map_of: "map_of (dict_set d k v) = (map_of d)(k \<mapsto> v)"
  by (induction d) auto

lemma dict_set_distinct: "distinct (map fst d) \<Longrightarrow> distinct (map fst (dict_set d k v))"
  by (simp add: dict_set_keys)

lemma llenar_snoc: "llenar (evs @ [x]) = dict_set (llenar evs) (key x) x"
  by (simp add: llenar_def)

lemma llenar_distinct: "distinct (map fst (llenar evs))"
  by (induction evs rule: rev_induct) (simp_all add: llenar_snoc dict_set_distinct, simp add: llenar_def)

lemma llenar_keys: "set (map fst (llenar evs)) = key ` set evs"
  by (induction evs rule: rev_induct) (auto simp: llenar_snoc dict_set_keys llenar_def)

lemma llenar_last:
  "map_of (llenar evs) k = Some e \<Longrightarrow>
     key e = k \<and> (\<exists>pre post. evs = pre @ e # post \<and> k \<notin> key ` set post)"
proof (induction evs arbitrary: e rule: rev_induct)
  case Nil
  then show ?case by (simp add: llenar_def)
next
  case (snoc x evs)
  show ?case
  proof (cases "key x = k")
    case True
    with snoc.prems have "e = x" by (simp add: llenar_snoc dict_set_map_of)
    then have "evs @ [x] = evs @ e # [] \<and> k \<notin> key ` set []" by simp
    with True \<open>e = x\<close> show ?thesis by blast
  next
    case False
    with snoc.prems have "map_of (llenar evs) k = Some e"
      by (simp add: llenar_snoc dict_set_map_of)
    from snoc.IH [OF this] obtain pre post where
      k: "key e = k" and d: "evs = pre @ e # post" and n: "k \<notin> key ` set post" by blast
    from d have "evs @ [x] = pre @ e # (post @ [x])" by simp
    moreover from n False have "k \<notin> key ` set (post @ [x])" by auto
    ultimately show ?thesis using k by blast
  qed
qed

lemma count_distinct_keys:
  "distinct (map fst d) \<Longrightarrow>
     length (filter (\<lambda>p. fst p = k) d) = (if k \<in> fst ` set d then 1 else 0)"
  by (induction d) (auto simp: image_iff)

lemma llenar_entry: "(k, e) \<in> set (llenar evs) \<Longrightarrow> key e = k"
  using llenar_last [of evs k e] llenar_distinct [of evs] by simp

lemma filter_values:
  "(\<And>k e. (k, e) \<in> set d \<Longrightarrow> key e = k) \<Longrightarrow>
     filter (\<lambda>e. key e = k) (map snd d) = map snd (filter (\<lambda>p. fst p = k) d)"
proof (induction d)
  case Nil then show ?case by simp
next
  case (Cons p d)
  have "key (snd p) = fst p" using Cons.prems [of "fst p" "snd p"] by simp
  moreover have "filter (\<lambda>e. key e = k) (map snd d) = map snd (filter (\<lambda>p. fst p = k) d)"
    using Cons by simp
  ultimately show ?case by simp
qed

text \<open>
  C1. Whatever the accumulated events are, over any number of weeks, \<open>uniq\<close> holds exactly
  one event for each identity \<open>key\<close> that occurs among them and none for any other, and
  the event it holds is the last one with that identity in the order of accumulation. So
  two events with the same identity, from different weeks, collapse to one.
\<close>

theorem uniq_one_per_identity:
  "(\<forall>k. length (filter (\<lambda>e. key e = k) (uniq evs)) = (if k \<in> key ` set evs then 1 else 0))
   \<and> (\<forall>e \<in> set (uniq evs). \<exists>pre post. evs = pre @ e # post \<and> key e \<notin> key ` set post)"
proof (intro conjI allI ballI)
  fix k
  have "filter (\<lambda>e. key e = k) (uniq evs) = map snd (filter (\<lambda>p. fst p = k) (llenar evs))"
    unfolding uniq_def dict_values_def
    by (rule filter_values) (rule llenar_entry)
  then show "length (filter (\<lambda>e. key e = k) (uniq evs)) = (if k \<in> key ` set evs then 1 else 0)"
    using count_distinct_keys [OF llenar_distinct, of k evs] llenar_keys [of evs] by simp
next
  fix e assume "e \<in> set (uniq evs)"
  then obtain k where "(k, e) \<in> set (llenar evs)"
    by (auto simp: uniq_def dict_values_def)
  then have "map_of (llenar evs) k = Some e" using llenar_distinct [of evs] by simp
  from llenar_last [OF this]
  show "\<exists>pre post. evs = pre @ e # post \<and> key e \<notin> key ` set post" by blast
qed

theorem uniq_one_per_identity_witness:
  "uniq [ev_lunes, ev_martes, ev_lunes] = [ev_lunes, ev_martes]
   \<and> length (filter (\<lambda>e. key e = key ev_lunes) (uniq [ev_lunes, ev_martes, ev_lunes])) = 1
   \<and> (\<exists>pre post. [ev_lunes, ev_martes, ev_lunes] = pre @ ev_lunes # post
                   \<and> key ev_lunes \<notin> key ` set post)"
proof -
  have u: "uniq [ev_lunes, ev_martes, ev_lunes] = [ev_lunes, ev_martes]"
    by code_simp
  have m: "ev_lunes \<in> set (uniq [ev_lunes, ev_martes, ev_lunes])"
    by (simp add: u)
  have k: "key ev_lunes \<in> key ` set [ev_lunes, ev_martes, ev_lunes]"
    by simp
  from uniq_one_per_identity [of "[ev_lunes, ev_martes, ev_lunes]"] u m k
  show ?thesis by metis
qed

section \<open>The document and the push give an event the same uid\<close>

lemma enumerate_shift:
  "map (\<lambda>(i, x). f (i + 1) x) (enumerate n xs) = map (\<lambda>(i, x). f i x) (enumerate (Suc n) xs)"
  by (induction xs arbitrary: n) simp_all

lemma uid_evento_eq_uid_push: "uid_evento i f t = uid_push i f t"
  by (simp add: uid_evento_def uid_push_def)

lemma uids_ics_push:
  "uids_ics eventos = map fst (push_to_google_calendar sha1_hex eventos)"
proof -
  have "uids_ics eventos
        = map (\<lambda>(i, ev). (\<lambda>j (f, t_ini, t_fin, resumen, descripcion). uid_push j f t_ini) (i + 1) ev)
              (enumerate 0 eventos)"
    by (simp add: uids_ics_def uid_evento_eq_uid_push split_def)
  also have "\<dots> = map (\<lambda>(i, ev). (\<lambda>j (f, t_ini, t_fin, resumen, descripcion). uid_push j f t_ini) i ev)
                     (enumerate (Suc 0) eventos)"
    by (rule enumerate_shift)
  also have "\<dots> = map fst (push_to_google_calendar sha1_hex eventos)"
    by (simp add: push_to_google_calendar_def split_def Let_def)
  finally show ?thesis .
qed

lemma push_ids:
  "map (\<lambda>p. fst (snd p)) (push_to_google_calendar sha1_hex eventos)
     = map (event_id_from_uid sha1_hex) (map fst (push_to_google_calendar sha1_hex eventos))"
  by (simp add: push_to_google_calendar_def split_def Let_def)

lemma bloques_nth:
  assumes "i < length eventos"
  shows "\<exists>rest. bloques reloj eventos ! i
           = ''BEGIN:VEVENT'' @ CRLF @ ''UID:'' @ uids_ics eventos ! i @ CRLF @ rest"
proof -
  obtain f t_ini t_fin resumen descripcion where
    ev: "eventos ! i = (f, t_ini, t_fin, resumen, descripcion)" by (cases "eventos ! i")
  have b: "bloques reloj eventos ! i
             = construir_evento (reloj i) (i + 1) resumen f t_ini t_fin descripcion"
    using assms by (simp add: bloques_def nth_enumerate_eq ev)
  have u: "uids_ics eventos ! i = uid_evento (i + 1) f t_ini"
    using assms by (simp add: uids_ics_def nth_enumerate_eq ev)
  show ?thesis unfolding b u construir_evento_def Let_def by (simp del: append_assoc add: append_assoc [symmetric])
qed

lemma uids_ics_nth:
  assumes "i < length eventos"
  shows "uids_ics eventos ! i
           = ''inacap-'' @ strftime_Ymd (fst (eventos ! i)) @ ''-''
             @ strftime_HM (fst (snd (eventos ! i))) @ ''-'' @ str_nat (i + 1) @ ''@siga''"
  using assms by (simp add: uids_ics_def nth_enumerate_eq uid_evento_def split_def)


text \<open>
  C2. For the same sequence of events, the uid that the document builder writes into the
  block at position \<open>i\<close> (counting from one) and the uid that the push computes at that
  position are the same string, \<open>inacap-YYYYMMDD-HHMM-i@siga\<close>; the identifier sent to the
  remote service is \<open>event_id_from_uid\<close> of that uid, a function of the uid alone. Neither
  depends on the clock, so a second run over the same events gives the same uids and
  the same remote identifiers.
\<close>

theorem uid_ics_igual_push:
  "uids_ics eventos = map fst (push_to_google_calendar sha1_hex eventos)
   \<and> map (\<lambda>p. fst (snd p)) (push_to_google_calendar sha1_hex eventos)
       = map (event_id_from_uid sha1_hex) (uids_ics eventos)
   \<and> (\<forall>i < length eventos.
         (\<exists>rest. bloques reloj eventos ! i
                   = ''BEGIN:VEVENT'' @ CRLF @ ''UID:'' @ uids_ics eventos ! i @ CRLF @ rest)
         \<and> uids_ics eventos ! i
             = ''inacap-'' @ strftime_Ymd (fst (eventos ! i)) @ ''-''
               @ strftime_HM (fst (snd (eventos ! i))) @ ''-'' @ str_nat (i + 1) @ ''@siga'')"
proof (intro conjI allI impI)
  show "uids_ics eventos = map fst (push_to_google_calendar sha1_hex eventos)"
    by (rule uids_ics_push)
  then show "map (\<lambda>p. fst (snd p)) (push_to_google_calendar sha1_hex eventos)
               = map (event_id_from_uid sha1_hex) (uids_ics eventos)"
    by (simp only: push_ids)
next
  fix i assume "i < length eventos"
  then show "\<exists>rest. bloques reloj eventos ! i
               = ''BEGIN:VEVENT'' @ CRLF @ ''UID:'' @ uids_ics eventos ! i @ CRLF @ rest"
    by (rule bloques_nth)
next
  fix i assume "i < length eventos"
  then show "uids_ics eventos ! i
               = ''inacap-'' @ strftime_Ymd (fst (eventos ! i)) @ ''-''
                 @ strftime_HM (fst (snd (eventos ! i))) @ ''-'' @ str_nat (i + 1) @ ''@siga''"
    by (rule uids_ics_nth)
qed

theorem uid_ics_igual_push_witness:
  "uids_ics [ev_lunes, ev_martes] ! 1 = ''inacap-20250805-1000-2@siga''
   \<and> fst (push_to_google_calendar (\<lambda>u. u) [ev_lunes, ev_martes] ! 1) = ''inacap-20250805-1000-2@siga''
   \<and> (\<exists>rest. bloques (\<lambda>i. ''20250801T120000Z'') [ev_lunes, ev_martes] ! 1
              = ''BEGIN:VEVENT'' @ CRLF @ ''UID:'' @ ''inacap-20250805-1000-2@siga'' @ CRLF @ rest)"
proof -
  have l: "(1::nat) < length [ev_lunes, ev_martes]" by simp
  have v: "''inacap-'' @ strftime_Ymd (fst ([ev_lunes, ev_martes] ! 1)) @ ''-''
             @ strftime_HM (fst (snd ([ev_lunes, ev_martes] ! 1))) @ ''-'' @ str_nat (1 + 1) @ ''@siga''
           = ''inacap-20250805-1000-2@siga''"
    by code_simp
  from uid_ics_igual_push [of "[ev_lunes, ev_martes]" "\<lambda>u. u" "\<lambda>i. ''20250801T120000Z''"] l
  have a: "uids_ics [ev_lunes, ev_martes] = map fst (push_to_google_calendar (\<lambda>u. u) [ev_lunes, ev_martes])"
    and b: "\<exists>rest. bloques (\<lambda>i. ''20250801T120000Z'') [ev_lunes, ev_martes] ! 1
                = ''BEGIN:VEVENT'' @ CRLF @ ''UID:'' @ uids_ics [ev_lunes, ev_martes] ! 1 @ CRLF @ rest"
    and c: "uids_ics [ev_lunes, ev_martes] ! 1
             = ''inacap-'' @ strftime_Ymd (fst ([ev_lunes, ev_martes] ! 1)) @ ''-''
               @ strftime_HM (fst (snd ([ev_lunes, ev_martes] ! 1))) @ ''-'' @ str_nat (1 + 1) @ ''@siga''"
    by blast+
  have u: "uids_ics [ev_lunes, ev_martes] ! 1 = ''inacap-20250805-1000-2@siga''"
    using c v by simp
  have p: "fst (push_to_google_calendar (\<lambda>u. u) [ev_lunes, ev_martes] ! 1) = uids_ics [ev_lunes, ev_martes] ! 1"
    by (simp add: a push_to_google_calendar_def)
  show ?thesis using u p b by simp
qed

section \<open>The document keeps the local date and time\<close>





























section \<open>The time block of a row\<close>

subsection \<open>Character classes\<close>

lemma space_not_digit: "is_space c \<Longrightarrow> \<not> is_digit c"
  by (auto simp: is_space_def is_digit_def)

lemma space_not_mes: "is_space c \<Longrightarrow> \<not> is_mes_char c"
  by (auto simp: is_space_def is_mes_char_def code_def)

lemma mes_not_space: "is_mes_char c \<Longrightarrow> \<not> is_space c"
  using space_not_mes by blast

lemma digit_not_space: "is_digit c \<Longrightarrow> \<not> is_space c"
  using space_not_digit by blast

lemma space_not_dot: "is_space c \<Longrightarrow> \<not> is_dot c"
  by (auto simp: is_space_def is_dot_def code_def)

lemma lower_digit: "is_digit c \<Longrightarrow> lower_char c = c"
  by (auto simp: is_digit_def lower_char_def)

lemma lower_space: "is_space c \<Longrightarrow> lower_char c = c"
  by (auto simp: is_space_def lower_char_def)

lemma str_lower_digits: "list_all is_digit s \<Longrightarrow> str_lower s = s"
  by (induction s) (auto simp: str_lower_def lower_digit)

lemma str_lower_spaces: "list_all is_space s \<Longrightarrow> str_lower s = s"
  by (induction s) (auto simp: str_lower_def lower_space)

lemma str_lower_append: "str_lower (a @ b) = str_lower a @ str_lower b"
  by (simp add: str_lower_def)

subsection \<open>The matcher\<close>

lemma rev_upt_Suc: "lo \<le> n \<Longrightarrow> rev [lo ..< Suc n] = n # rev [lo ..< n]"
  by simp

lemma rmatch_Rep_first:
  assumes "lo \<le> rep_max p hi rest"
    and "rmatch rs (rev (take (rep_max p hi rest) rest) @ bef) (drop (rep_max p hi rest) rest) ms = Some r"
  shows "rmatch (Rep p lo hi # rs) bef rest ms = Some r"
  using assms by (simp add: rev_upt_Suc del: upt_Suc)

lemma takeWhile_run:
  "list_all p xs \<Longrightarrow> rest = [] \<or> \<not> p (hd rest) \<Longrightarrow> takeWhile p (xs @ rest) = xs"
  by (induction xs) (auto simp: takeWhile_eq_Nil_iff)

lemma rep_max_run:
  assumes "list_all p xs" and "rest = [] \<or> \<not> p (hd rest)"
    and "case hi of None \<Rightarrow> True | Some h \<Rightarrow> length xs \<le> h"
  shows "rep_max p hi (xs @ rest) = length xs"
  using assms by (simp add: rep_max_def takeWhile_run split: option.splits)

lemma rep_max_full:
  assumes "list_all p xs"
  shows "rep_max p (Some (length xs)) (xs @ rest) = length xs"
proof -
  have "length xs \<le> length (takeWhile p (xs @ rest))"
    using assms by (induction xs) auto
  then show ?thesis by (simp add: rep_max_def)
qed

lemma rmatch_Rep_run:
  assumes "list_all p xs" and "rest = [] \<or> \<not> p (hd rest)"
    and "case hi of None \<Rightarrow> True | Some h \<Rightarrow> length xs \<le> h"
    and "lo \<le> length xs"
    and "rmatch rs (rev xs @ bef) rest ms = Some r"
  shows "rmatch (Rep p lo hi # rs) bef (xs @ rest) ms = Some r"
  by (rule rmatch_Rep_first) (simp_all add: rep_max_run [OF assms(1-3)] assms)

lemma rmatch_Rep_full:
  assumes "list_all p xs" and "length xs = h" and "lo \<le> h"
    and "rmatch rs (rev xs @ bef) rest ms = Some r"
  shows "rmatch (Rep p lo (Some h) # rs) bef (xs @ rest) ms = Some r"
  using assms rep_max_full [OF assms(1), of rest]
  by (intro rmatch_Rep_first) simp_all

lemma rmatch_Rep_skip:
  assumes "rest = [] \<or> \<not> p (hd rest)" and "rmatch rs bef rest ms = Some r"
  shows "rmatch (Rep p 0 hi # rs) bef rest ms = Some r"
  using rmatch_Rep_run [of p "[]" rest hi 0 rs bef ms r] assms by (simp split: option.splits)

lemma rmatch_Chr: "rmatch (Chr c # rs) bef (c # xs) ms = rmatch rs (c # bef) xs ms"
  by simp

lemma first_some_Some: "first_some xs = Some r \<Longrightarrow> Some r \<in> set xs"
  by (induction xs rule: first_some.induct) auto

lemma first_some_None: "first_some xs = None \<longleftrightarrow> (\<forall>x \<in> set xs. x = None)"
  by (induction xs rule: first_some.induct) auto

lemma re_search_at_start: "rmatch rs [] s [] = Some r \<Longrightarrow> re_search rs s = Some r"
  by (simp add: re_search_def upt_conv_Cons del: upt_Suc)


subsection \<open>int on digits\<close>

lemma int_body_ok_digits: "s \<noteq> [] \<Longrightarrow> list_all is_digit s \<Longrightarrow> int_body_ok s"
proof (induction s rule: int_body_ok.induct)
  case (3 c d cs)
  then have "d \<noteq> CHR ''_''" by (auto simp: is_digit_def code_def)
  with 3 show ?case by simp
qed simp_all

lemma filter_underscore_digits: "list_all is_digit s \<Longrightarrow> filter (\<lambda>c. c \<noteq> CHR ''_'') s = s"
  by (induction s) (auto simp: is_digit_def code_def)

lemma str_strip_id:
  "s \<noteq> [] \<Longrightarrow> \<not> is_space (hd s) \<Longrightarrow> \<not> is_space (last s) \<Longrightarrow> str_strip s = s"
proof -
  assume a: "s \<noteq> []" "\<not> is_space (hd s)" "\<not> is_space (last s)"
  then have "dropWhile is_space s = s" by (cases s) auto
  moreover from a have "dropWhile is_space (rev s) = rev s"
    by (cases "rev s") (auto simp: last_rev [symmetric] simp del: last_rev)
  ultimately show ?thesis by (simp add: str_strip_def)
qed

lemma py_int_digits:
  assumes "s \<noteq> []" and "list_all is_digit s"
  shows "py_int s = Inr (int (digits_val s))"
proof -
  from assms have h: "is_digit (hd s)" and l: "is_digit (last s)"
    by (auto simp: list_all_iff)
  then have st: "str_strip s = s"
    using assms(1) by (intro str_strip_id) (auto dest: digit_not_space)
  have ib: "int_body s = Inr (int (digits_val s))"
    using assms by (simp add: int_body_def int_body_ok_digits filter_underscore_digits)
  obtain c cs where s: "s = c # cs" using assms(1) by (cases s) auto
  from h s have "c \<noteq> CHR ''-''" "c \<noteq> CHR ''+''" by (auto simp: is_digit_def code_def)
  then have "py_int s = int_body s"
    by (simp add: py_int_def st) (simp add: s)
  with ib show ?thesis by simp
qed


subsection \<open>Where a run ends\<close>

lemma hd_run: "list_all q xs \<Longrightarrow> 1 \<le> length xs \<Longrightarrow> q (hd (xs @ r))"
  by (cases xs) auto

lemma hd_after_run:
  "list_all q ws \<Longrightarrow> q y \<or> P y \<Longrightarrow> (\<And>c. q c \<Longrightarrow> P c) \<Longrightarrow> P (hd (ws @ y # r))"
  by (cases ws) auto

lemma not_digit_chars: "\<not> is_digit CHR '':''" "\<not> is_digit CHR ''-''" "\<not> is_space CHR ''-''"
  "\<not> is_space CHR '':''"
  by (simp_all add: is_digit_def is_space_def code_def)

lemma rmatch_BLOQUE:
  assumes h1: "list_all is_digit h1" "1 \<le> length h1" "length h1 \<le> 2"
    and m1: "list_all is_digit m1" "length m1 = 2"
    and ws: "list_all is_space ws1" "list_all is_space ws2"
    and h2: "list_all is_digit h2" "1 \<le> length h2" "length h2 \<le> 2"
    and m2: "list_all is_digit m2" "length m2 = 2"
    and cont: "rmatch rs
             (rev (h1 @ CHR '':'' # m1 @ ws1 @ CHR ''-'' # ws2 @ h2 @ CHR '':'' # m2) @ bef) rest
             (ms @ [length bef, length bef + length h1 + 3,
                    length bef + length h1 + 3 + length ws1 + 1 + length ws2,
                    length bef + length h1 + 3 + length ws1 + 1 + length ws2 + length h2 + 3])
           = Some r"
  shows "rmatch (RX_BLOQUE @ rs) bef
           (h1 @ CHR '':'' # m1 @ ws1 @ CHR ''-'' # ws2 @ h2 @ CHR '':'' # m2 @ rest) ms
         = Some r"
proof -
  have e1: "h2 @ CHR '':'' # m2 @ rest = [] \<or> \<not> is_space (hd (h2 @ CHR '':'' # m2 @ rest))"
    using hd_run [OF h2(1,2), of "CHR '':'' # m2 @ rest"] digit_not_space by blast
  have e2: "CHR ''-'' # ws2 @ h2 @ CHR '':'' # m2 @ rest = []
            \<or> \<not> is_space (hd (CHR ''-'' # ws2 @ h2 @ CHR '':'' # m2 @ rest))"
    by (simp add: not_digit_chars)
  have e3: "\<And>t. CHR '':'' # t = [] \<or> \<not> is_digit (hd (CHR '':'' # t))"
    by (simp add: not_digit_chars)
  show ?thesis
    unfolding RX_BLOQUE_def append_Cons append_Nil
    apply (simp only: rmatch.simps(4))
    apply (rule rmatch_Rep_run [OF h1(1) e3])
      apply (use h1 in simp)
     apply (use h1 in simp)
    apply (simp only: rmatch_Chr)
    apply (rule rmatch_Rep_full [OF m1])
     apply simp
    apply (simp only: rmatch.simps(5))
    apply (rule rmatch_Rep_run [OF ws(1) e2])
      apply simp
     apply simp
    apply (simp only: rmatch_Chr)
    apply (rule rmatch_Rep_run [OF ws(2) e1])
      apply simp
     apply simp
    apply (simp only: rmatch.simps(4))
    apply (rule rmatch_Rep_run [OF h2(1) e3])
      apply (use h2 in simp)
     apply (use h2 in simp)
    apply (simp only: rmatch_Chr)
    apply (rule rmatch_Rep_full [OF m2])
     apply simp
    apply (simp only: rmatch.simps(5))
    apply (rule trans [OF _ cont])
    apply (rule arg_cong2 [where f = "\<lambda>a c. rmatch rs a rest c"])
     apply simp
    apply (simp add: m1 m2)
    done
qed


subsection \<open>Splitting at a colon\<close>

lemma split_from_char:
  "c \<notin> set a \<Longrightarrow> split_from [c] cur (a @ c # b) = (rev cur @ a) # split_from [c] [] b"
  by (induction a arbitrary: cur) (auto simp: str_startswith_def)

lemma split_from_none: "c \<notin> set a \<Longrightarrow> split_from [c] cur a = [rev cur @ a]"
  by (induction a arbitrary: cur) (auto simp: str_startswith_def)

lemma digits_no_colon: "list_all is_digit s \<Longrightarrow> CHR '':'' \<notin> set s"
  by (induction s) (auto simp: is_digit_def code_def)

lemma hhmm_to_time_digits:
  assumes "list_all is_digit h" "h \<noteq> []" "list_all is_digit m" "m \<noteq> []"
  shows "hhmm_to_time (h @ CHR '':'' # m) = mk_time (int (digits_val h)) (int (digits_val m))"
proof -
  have "str_split (h @ CHR '':'' # m) '':'' = [h, m]"
    using assms by (simp add: str_split_def split_from_char split_from_none digits_no_colon)
  then show ?thesis
    using assms by (simp add: hhmm_to_time_def py_int_digits)
qed

lemma groups_two:
  "groups (A @ B @ C @ rest) [0, length A, length A + length B, length A + length B + length C]
     = [A, C]"
  by (simp add: add.assoc)

lemma groups_BLOQUE:
  assumes "length m1 = 2" "length m2 = 2"
  shows "groups (h1 @ CHR '':'' # m1 @ ws1 @ CHR ''-'' # ws2 @ h2 @ CHR '':'' # m2 @ rest)
           [0, 0 + length h1 + 3, 0 + length h1 + 3 + length ws1 + 1 + length ws2,
            0 + length h1 + 3 + length ws1 + 1 + length ws2 + length h2 + 3]
         = [h1 @ CHR '':'' # m1, h2 @ CHR '':'' # m2]"
proof -
  define A where "A = h1 @ CHR '':'' # m1"
  define B where "B = ws1 @ CHR ''-'' # ws2"
  define C where "C = h2 @ CHR '':'' # m2"
  have s: "h1 @ CHR '':'' # m1 @ ws1 @ CHR ''-'' # ws2 @ h2 @ CHR '':'' # m2 @ rest = A @ B @ C @ rest"
    by (simp add: A_def B_def C_def)
  have m: "[0, 0 + length h1 + 3, 0 + length h1 + 3 + length ws1 + 1 + length ws2,
            0 + length h1 + 3 + length ws1 + 1 + length ws2 + length h2 + 3]
           = [0, length A, length A + length B, length A + length B + length C]"
    using assms by (simp add: A_def B_def C_def)
  show ?thesis unfolding s m groups_two by (simp add: A_def C_def)
qed

lemma bloque_horario_forma:
  assumes h1: "list_all is_digit h1" "1 \<le> length h1" "length h1 \<le> 2"
    and m1: "list_all is_digit m1" "length m1 = 2"
    and ws: "list_all is_space ws1" "list_all is_space ws2"
    and h2: "list_all is_digit h2" "1 \<le> length h2" "length h2 \<le> 2"
    and m2: "list_all is_digit m2" "length m2 = 2"
  shows "bloque_horario (h1 @ CHR '':'' # m1 @ ws1 @ CHR ''-'' # ws2 @ h2 @ CHR '':'' # m2 @ rest)
         = Some (case mk_time (int (digits_val h1)) (int (digits_val m1)) of
                   Inl e \<Rightarrow> Inl e
                 | Inr t_ini \<Rightarrow>
                     (case mk_time (int (digits_val h2)) (int (digits_val m2)) of
                        Inl e \<Rightarrow> Inl e | Inr t_fin \<Rightarrow> Inr (t_ini, t_fin)))"
proof -
  let ?s = "h1 @ CHR '':'' # m1 @ ws1 @ CHR ''-'' # ws2 @ h2 @ CHR '':'' # m2 @ rest"
  let ?ms = "[0, 0 + length h1 + 3, 0 + length h1 + 3 + length ws1 + 1 + length ws2,
              0 + length h1 + 3 + length ws1 + 1 + length ws2 + length h2 + 3]"
  have "rmatch (RX_BLOQUE @ []) [] ?s [] = Some ([] @ ?ms)"
    by (rule rmatch_BLOQUE [OF assms]) simp
  then have m: "re_match RX_BLOQUE ?s = Some ?ms" by (simp add: re_match_def)
  have g: "groups ?s ?ms = [h1 @ CHR '':'' # m1, h2 @ CHR '':'' # m2]"
    by (rule groups_BLOQUE [OF m1(2) m2(2)])
  have n: "h1 \<noteq> []" "m1 \<noteq> []" "h2 \<noteq> []" "m2 \<noteq> []"
    using h1 m1 h2 m2 by auto
  have "bloque_horario ?s
        = Some (case hhmm_to_time (groups ?s ?ms ! 0) of Inl e \<Rightarrow> Inl e | Inr t_ini \<Rightarrow>
                case hhmm_to_time (groups ?s ?ms ! 1) of Inl e \<Rightarrow> Inl e | Inr t_fin \<Rightarrow>
                Inr (t_ini, t_fin))"
    by (simp only: bloque_horario_def m option.case)
  moreover have "hhmm_to_time ([h1 @ CHR '':'' # m1, h2 @ CHR '':'' # m2] ! 0)
                 = mk_time (int (digits_val h1)) (int (digits_val m1))"
    by (simp add: hhmm_to_time_digits h1 m1 n)
  moreover have "hhmm_to_time ([h1 @ CHR '':'' # m1, h2 @ CHR '':'' # m2] ! 1)
                 = mk_time (int (digits_val h2)) (int (digits_val m2))"
    by (simp add: hhmm_to_time_digits h2 m2 n)
  ultimately show ?thesis
    unfolding g by (simp only:)
qed


text \<open>
  C5, as the code has it. A time block is one or two digits, a colon and two digits, a
  hyphen with any whitespace around it, and the same again. When both hours are at most 23
  and both minutes at most 59, the parser returns the two times of day with zero seconds,
  whatever their order (an end before the start, or equal to it, is returned as it is).
  When an hour is above 23 or a minute above 59, the constructor of the time of day
  raises \<open>ValueError\<close>: the components are validated.
\<close>

theorem bloque_horario_rango:
  assumes "list_all is_digit h1" and "1 \<le> length h1" and "length h1 \<le> 2"
    and "list_all is_digit m1" and "length m1 = 2"
    and "list_all is_space ws1" and "list_all is_space ws2"
    and "list_all is_digit h2" and "1 \<le> length h2" and "length h2 \<le> 2"
    and "list_all is_digit m2" and "length m2 = 2"
  shows "bloque_horario (h1 @ '':'' @ m1 @ ws1 @ ''-'' @ ws2 @ h2 @ '':'' @ m2)
         = Some (if digits_val h1 \<le> 23 \<and> digits_val m1 \<le> 59
                    \<and> digits_val h2 \<le> 23 \<and> digits_val m2 \<le> 59
                 then Inr (\<lparr>hour = digits_val h1, minute = digits_val m1, second = 0\<rparr>,
                           \<lparr>hour = digits_val h2, minute = digits_val m2, second = 0\<rparr>)
                 else Inl ValueError_time)"
  using bloque_horario_forma [OF assms, of "[]"] by (simp add: mk_time_def)

theorem bloque_horario_rango_witness:
  "bloque_horario ''23:00 - 01:30''
     = Some (Inr (\<lparr>hour = 23, minute = 0, second = 0\<rparr>, \<lparr>hour = 1, minute = 30, second = 0\<rparr>))"
proof -
  have d: "list_all is_digit ''23''" "list_all is_digit ''00''" "list_all is_digit ''01''"
    "list_all is_digit ''30''"
    by (simp_all add: is_digit_def code_def)
  have s: "list_all is_space '' ''" by (simp add: is_space_def code_def)
  have v: "digits_val ''23'' = 23" "digits_val ''00'' = 0" "digits_val ''01'' = 1"
    "digits_val ''30'' = 30"
    by (simp_all add: digits_val_def digit_val_def code_def)
  from bloque_horario_rango [OF d(1) _ _ d(2) _ s s d(3) _ _ d(4), simplified]
  show ?thesis by (simp add: v)
qed

theorem bloque_horario_counterexample:
  "bloque_horario ''8:75 - 9:30'' = Some (Inl ValueError_time)"
  by code_simp

section \<open>The range label\<close>

lemma lower_mes_fix: "is_mes_char c \<Longrightarrow> lower_char c = c"
  by (auto simp: is_mes_char_def lower_char_def code_def)

lemma not_mes_chars: "\<not> is_dot CHR '' ''" "\<not> is_space CHR ''.''"
  by (simp_all add: is_dot_def is_space_def code_def)

lemma rmatch_RANGO:
  assumes d1: "list_all is_digit d1" "1 \<le> length d1" "length d1 \<le> 2"
    and ws: "list_all is_space ws1" "list_all is_space ws2"
    and d2: "list_all is_digit d2" "1 \<le> length d2" "length d2 \<le> 2"
    and ws3: "list_all is_space ws3" "1 \<le> length ws3"
    and tok: "list_all is_mes_char tok" "1 \<le> length tok"
    and ws4: "list_all is_space ws4" "1 \<le> length ws4"
    and y: "list_all is_digit y" "length y = 4"
  shows "rmatch RX_RANGO [] (d1 @ ws1 @ CHR ''-'' # ws2 @ d2 @ ws3 @ tok @ ws4 @ y @ rest) []
         = Some [0, length d1,
                 length d1 + (length ws1 + 1 + length ws2),
                 length d1 + (length ws1 + 1 + length ws2) + length d2,
                 length d1 + (length ws1 + 1 + length ws2) + length d2 + length ws3,
                 length d1 + (length ws1 + 1 + length ws2) + length d2 + length ws3 + length tok,
                 length d1 + (length ws1 + 1 + length ws2) + length d2 + length ws3 + length tok
                   + length ws4,
                 length d1 + (length ws1 + 1 + length ws2) + length d2 + length ws3 + length tok
                   + length ws4 + length y]"
proof -
  have e1: "ws1 @ CHR ''-'' # ws2 @ d2 @ ws3 @ tok @ ws4 @ y @ rest = []
            \<or> \<not> is_digit (hd (ws1 @ CHR ''-'' # ws2 @ d2 @ ws3 @ tok @ ws4 @ y @ rest))"
    using hd_after_run [OF ws(1), where P = "\<lambda>c. \<not> is_digit c" and y = "CHR ''-''"]
    by (simp add: not_digit_chars space_not_digit)
  have e2: "\<And>t. CHR ''-'' # t = [] \<or> \<not> is_space (hd (CHR ''-'' # t))"
    by (simp add: not_digit_chars)
  have e3: "d2 @ ws3 @ tok @ ws4 @ y @ rest = [] \<or> \<not> is_space (hd (d2 @ ws3 @ tok @ ws4 @ y @ rest))"
    using hd_run [OF d2(1,2), of "ws3 @ tok @ ws4 @ y @ rest"] digit_not_space by blast
  have e4: "ws3 @ tok @ ws4 @ y @ rest = [] \<or> \<not> is_digit (hd (ws3 @ tok @ ws4 @ y @ rest))"
    using hd_run [OF ws3, of "tok @ ws4 @ y @ rest"] space_not_digit by blast
  have e5: "tok @ ws4 @ y @ rest = [] \<or> \<not> is_space (hd (tok @ ws4 @ y @ rest))"
    using hd_run [OF tok, of "ws4 @ y @ rest"] mes_not_space by blast
  have e6: "ws4 @ y @ rest = [] \<or> \<not> is_mes_char (hd (ws4 @ y @ rest))"
    using hd_run [OF ws4, of "y @ rest"] space_not_mes by blast
  have e7: "ws4 @ y @ rest = [] \<or> \<not> is_dot (hd (ws4 @ y @ rest))"
    using hd_run [OF ws4, of "y @ rest"] space_not_dot by blast
  have e8: "y @ rest = [] \<or> \<not> is_space (hd (y @ rest))"
    using hd_run [OF y(1), of rest] y(2) digit_not_space by auto
  show ?thesis
    unfolding RX_RANGO_def
    apply (simp only: rmatch.simps(4))
    apply (rule rmatch_Rep_run [OF d1(1) e1])
      apply (use d1 in simp)
     apply (use d1 in simp)
    apply (simp only: rmatch.simps(5))
    apply (rule rmatch_Rep_run [OF ws(1) e2])
      apply simp
     apply simp
    apply (simp only: rmatch_Chr)
    apply (rule rmatch_Rep_run [OF ws(2) e3])
      apply simp
     apply simp
    apply (simp only: rmatch.simps(4))
    apply (rule rmatch_Rep_run [OF d2(1) e4])
      apply (use d2 in simp)
     apply (use d2 in simp)
    apply (simp only: rmatch.simps(5))
    apply (rule rmatch_Rep_run [OF ws3(1) e5])
      apply simp
     apply (use ws3 in simp)
    apply (simp only: rmatch.simps(4))
    apply (rule rmatch_Rep_run [OF tok(1) e6])
      apply simp
     apply (use tok in simp)
    apply (simp only: rmatch.simps(5))
    apply (rule rmatch_Rep_skip [where p = is_dot, OF e7])
    apply (rule rmatch_Rep_run [OF ws4(1) e8])
      apply simp
     apply (use ws4 in simp)
    apply (simp only: rmatch.simps(4))
    apply (rule rmatch_Rep_full [OF y])
     apply simp
    apply (simp only: rmatch.simps(5) rmatch.simps(1))
    apply (simp add: add.assoc)
    done
qed


lemma str_lower_Cons: "str_lower (c # s) = lower_char c # str_lower s"
  by (simp add: str_lower_def)

lemma groups_four:
  "groups (A @ B @ C @ D @ E @ F @ G @ rest)
     [0, length A, length A + length B, length A + length B + length C,
      length A + length B + length C + length D,
      length A + length B + length C + length D + length E,
      length A + length B + length C + length D + length E + length F,
      length A + length B + length C + length D + length E + length F + length G]
   = [A, C, E, G]"
  by (simp add: add.assoc)

lemma MESES_keys:
  assumes "MESES k = Some mes"
  shows "1 \<le> mes \<and> mes \<le> 12"
  using assms by (auto simp: MESES_def split: if_splits)

lemma re_search_RANGO:
  assumes d1: "list_all is_digit d1" "1 \<le> length d1" "length d1 \<le> 2"
    and ws: "list_all is_space ws1" "list_all is_space ws2"
    and d2: "list_all is_digit d2" "1 \<le> length d2" "length d2 \<le> 2"
    and ws3: "list_all is_space ws3" "1 \<le> length ws3"
    and tok: "list_all is_mes_char tok" "1 \<le> length tok"
    and ws4: "list_all is_space ws4" "1 \<le> length ws4"
    and y: "list_all is_digit y" "length y = 4"
  shows "\<exists>ms. re_search RX_RANGO (d1 @ ws1 @ CHR ''-'' # ws2 @ d2 @ ws3 @ tok @ ws4 @ y @ rest) = Some ms
           \<and> groups (d1 @ ws1 @ CHR ''-'' # ws2 @ d2 @ ws3 @ tok @ ws4 @ y @ rest) ms
               = [d1, d2, tok, y]"
proof -
  define B where "B = ws1 @ CHR ''-'' # ws2"
  have s: "d1 @ ws1 @ CHR ''-'' # ws2 @ d2 @ ws3 @ tok @ ws4 @ y @ rest
           = d1 @ B @ d2 @ ws3 @ tok @ ws4 @ y @ rest"
    by (simp add: B_def)
  have m: "[0, length d1,
            length d1 + (length ws1 + 1 + length ws2),
            length d1 + (length ws1 + 1 + length ws2) + length d2,
            length d1 + (length ws1 + 1 + length ws2) + length d2 + length ws3,
            length d1 + (length ws1 + 1 + length ws2) + length d2 + length ws3 + length tok,
            length d1 + (length ws1 + 1 + length ws2) + length d2 + length ws3 + length tok
              + length ws4,
            length d1 + (length ws1 + 1 + length ws2) + length d2 + length ws3 + length tok
              + length ws4 + length y]
           = [0, length d1, length d1 + length B, length d1 + length B + length d2,
              length d1 + length B + length d2 + length ws3,
              length d1 + length B + length d2 + length ws3 + length tok,
              length d1 + length B + length d2 + length ws3 + length tok + length ws4,
              length d1 + length B + length d2 + length ws3 + length tok + length ws4 + length y]"
    by (simp add: B_def)
  from rmatch_RANGO [OF assms, of rest]
  have "re_search RX_RANGO (d1 @ ws1 @ CHR ''-'' # ws2 @ d2 @ ws3 @ tok @ ws4 @ y @ rest)
        = Some [0, length d1, length d1 + length B, length d1 + length B + length d2,
              length d1 + length B + length d2 + length ws3,
              length d1 + length B + length d2 + length ws3 + length tok,
              length d1 + length B + length d2 + length ws3 + length tok + length ws4,
              length d1 + length B + length d2 + length ws3 + length tok + length ws4 + length y]"
    unfolding m by (rule re_search_at_start)
  moreover have "groups (d1 @ ws1 @ CHR ''-'' # ws2 @ d2 @ ws3 @ tok @ ws4 @ y @ rest)
            [0, length d1, length d1 + length B, length d1 + length B + length d2,
              length d1 + length B + length d2 + length ws3,
              length d1 + length B + length d2 + length ws3 + length tok,
              length d1 + length B + length d2 + length ws3 + length tok + length ws4,
              length d1 + length B + length d2 + length ws3 + length tok + length ws4 + length y]
          = [d1, d2, tok, y]"
    unfolding s by (rule groups_four)
  ultimately show ?thesis by blast
qed

lemma parse_fecha_rango_forma:
  assumes d1: "list_all is_digit d1" "1 \<le> length d1" "length d1 \<le> 2"
    and ws: "list_all is_space ws1" "list_all is_space ws2"
    and d2: "list_all is_digit d2" "1 \<le> length d2" "length d2 \<le> 2"
    and ws3: "list_all is_space ws3" "1 \<le> length ws3"
    and tok: "list_all is_mes_char (str_lower tok)" "1 \<le> length tok"
    and ws4: "list_all is_space ws4" "1 \<le> length ws4"
    and y: "list_all is_digit y" "length y = 4"
  shows "parse_fecha_rango (d1 @ ws1 @ CHR ''-'' # ws2 @ d2 @ ws3 @ tok @ ws4 @ y)
         = (case MESES (filter (\<lambda>c. c \<noteq> CHR ''.'') (str_lower tok)) of
              None \<Rightarrow> Inl (UnknownMonthError (filter (\<lambda>c. c \<noteq> CHR ''.'') (str_lower tok)))
            | Some mes \<Rightarrow> Inr (int (digits_val d1), int (digits_val d2), mes, int (digits_val y)))"
proof -
  let ?label = "d1 @ ws1 @ CHR ''-'' # ws2 @ d2 @ ws3 @ tok @ ws4 @ y"
  let ?txt = "d1 @ ws1 @ CHR ''-'' # ws2 @ d2 @ ws3 @ str_lower tok @ ws4 @ y @ []"
  have ne: "d1 \<noteq> []" "y \<noteq> []" "d2 \<noteq> []" using d1 y d2 by auto
  have "\<not> is_space (hd ?label)"
    using hd_run [OF d1(1,2)] digit_not_space by blast
  moreover have "last ?label = last y" using ne by simp
  then have "\<not> is_space (last ?label)"
    using y ne digit_not_space by (auto simp: list_all_iff)
  ultimately have st: "str_strip ?label = ?label"
    using ne by (intro str_strip_id) simp_all
  have lc: "lower_char CHR ''-'' = CHR ''-''" by (simp add: lower_char_def code_def)
  have lo: "str_lower ?label = ?txt"
    using d1 d2 ws ws3 ws4 y
    by (simp add: str_lower_append str_lower_Cons str_lower_digits str_lower_spaces lc)
  have tl: "1 \<le> length (str_lower tok)" using tok by (simp add: str_lower_def)
  from re_search_RANGO [OF d1 ws d2 ws3 tok(1) tl ws4 y, of "[]"] obtain ms where
    ms: "re_search RX_RANGO ?txt = Some ms" and g: "groups ?txt ms = [d1, d2, str_lower tok, y]"
    by blast
  have i: "py_int d1 = Inr (int (digits_val d1))" "py_int d2 = Inr (int (digits_val d2))"
    "py_int y = Inr (int (digits_val y))"
    using d1 d2 y ne by (simp_all add: py_int_digits)
  show ?thesis
    unfolding parse_fecha_rango_def st lo Let_def ms option.case g list.case i sum.case
    by (simp split: option.splits)
qed


lemma rmatch_needs_chr:
  "rmatch rs bef rest ms = Some r \<Longrightarrow> Chr c \<in> set rs \<Longrightarrow> c \<in> set rest"
proof (induction rs bef rest ms rule: rmatch.induct)
  case (1 bef rest ms)
  then show ?case by simp
next
  case (2 c' rs bef rest ms)
  then show ?case by (cases rest) (auto split: if_splits)
next
  case (3 p lo hi rs bef rest ms)
  from "3.prems"(1) obtain k where
    k: "k \<in> set (rev [lo ..< Suc (rep_max p hi rest)])"
    and m: "rmatch rs (rev (take k rest) @ bef) (drop k rest) ms = Some r"
    by (auto dest!: first_some_Some simp del: upt_Suc)
  from "3.prems"(2) have "Chr c \<in> set rs" by simp
  from "3.IH" [OF k m this] have "c \<in> set (drop k rest)" .
  then show ?case by (rule in_set_dropD)
next
  case (4 rs bef rest ms)
  then show ?case by simp
next
  case (5 rs bef rest ms)
  then show ?case by simp
next
  case (6 rs bef rest ms)
  then show ?case by (simp split: if_splits)
next
  case (7 rs bef rest ms)
  then show ?case by (simp split: if_splits)
qed

lemma re_search_needs_chr:
  assumes "re_search rs s = Some r" and "Chr c \<in> set rs"
  shows "c \<in> set s"
proof -
  from assms(1) obtain i where "rmatch rs (rev (take i s)) (drop i s) [] = Some r"
    by (auto simp: re_search_def dest!: first_some_Some simp del: upt_Suc)
  from rmatch_needs_chr [OF this assms(2)] show ?thesis by (rule in_set_dropD)
qed

lemma lower_char_hyphen: "lower_char c = CHR ''-'' \<Longrightarrow> c = CHR ''-''"
proof -
  assume a: "lower_char c = CHR ''-''"
  show ?thesis
  proof (cases "(65 \<le> code c \<and> code c \<le> 90) \<or> (192 \<le> code c \<and> code c \<le> 222 \<and> code c \<noteq> 215)")
    case True
    then have "code (lower_char c) = code c + 32"
      by (auto simp: lower_char_def code_def)
    with a True show ?thesis by (auto simp: code_def)
  next
    case False
    with a show ?thesis by (simp add: lower_char_def)
  qed
qed

lemma set_str_strip: "set (str_strip s) \<subseteq> set s"
proof
  fix x assume "x \<in> set (str_strip s)"
  then have "x \<in> set (dropWhile is_space (rev (dropWhile is_space s)))"
    by (simp add: str_strip_def)
  then have "x \<in> set (rev (dropWhile is_space s))" by (rule set_dropWhileD)
  then have "x \<in> set (dropWhile is_space s)" by simp
  then show "x \<in> set s" by (rule set_dropWhileD)
qed

lemma parse_fecha_rango_sin_guion:
  assumes "CHR ''-'' \<notin> set label"
  shows "parse_fecha_rango label = Inl (FormatError label)"
proof -
  have "re_search RX_RANGO (str_lower (str_strip label)) = None"
  proof (rule ccontr)
    assume "re_search RX_RANGO (str_lower (str_strip label)) \<noteq> None"
    then obtain r where "re_search RX_RANGO (str_lower (str_strip label)) = Some r" by auto
    moreover have "Chr CHR ''-'' \<in> set RX_RANGO" by (simp add: RX_RANGO_def)
    ultimately have "CHR ''-'' \<in> set (str_lower (str_strip label))"
      by (rule re_search_needs_chr)
    then obtain c where "c \<in> set (str_strip label)" "lower_char c = CHR ''-''"
      by (auto simp: str_lower_def)
    then have "CHR ''-'' \<in> set (str_strip label)" by (auto dest: lower_char_hyphen)
    with set_str_strip [of label] assms show False by auto
  qed
  then show ?thesis by (simp add: parse_fecha_rango_def)
qed

text \<open>
  C3, as the code has it. A label made of one or two digits, a hyphen with any whitespace
  around it, one or two digits, whitespace, a month token, whitespace and four digits is
  resolved as follows: the token, in lower case, is a run of the letters \<open>a\<close> to \<open>z\<close>, the n
  with tilde and periods; every period is removed from it, wherever it stands, and what
  is left is looked up in the table of twelve abbreviations. If it is there, the result
  is the two days, the month and the year, and the month is between 1 and 12; if it is
  not, the resolver fails with \<open>UnknownMonthError\<close>. A label in which the pattern occurs
  nowhere fails with \<open>FormatError\<close>; such are all labels without a hyphen, the empty one
  among them.
\<close>

theorem parse_fecha_rango_resuelve:
  assumes "list_all is_digit d1" and "1 \<le> length d1" and "length d1 \<le> 2"
    and "list_all is_space ws1" and "list_all is_space ws2"
    and "list_all is_digit d2" and "1 \<le> length d2" and "length d2 \<le> 2"
    and "list_all is_space ws3" and "1 \<le> length ws3"
    and "list_all is_mes_char (str_lower tok)" and "1 \<le> length tok"
    and "list_all is_space ws4" and "1 \<le> length ws4"
    and "list_all is_digit y" and "length y = 4"
  shows "parse_fecha_rango (d1 @ ws1 @ ''-'' @ ws2 @ d2 @ ws3 @ tok @ ws4 @ y)
           = (case MESES (filter (\<lambda>c. c \<noteq> CHR ''.'') (str_lower tok)) of
                None \<Rightarrow> Inl (UnknownMonthError (filter (\<lambda>c. c \<noteq> CHR ''.'') (str_lower tok)))
              | Some mes \<Rightarrow> Inr (int (digits_val d1), int (digits_val d2), mes, int (digits_val y)))
         \<and> (\<forall>mes. MESES (filter (\<lambda>c. c \<noteq> CHR ''.'') (str_lower tok)) = Some mes
                  \<longrightarrow> 1 \<le> mes \<and> mes \<le> 12)
         \<and> (\<forall>label. re_search RX_RANGO (str_lower (str_strip label)) = None
                  \<longrightarrow> parse_fecha_rango label = Inl (FormatError label))
         \<and> (\<forall>label. CHR ''-'' \<notin> set label
                  \<longrightarrow> parse_fecha_rango label = Inl (FormatError label))"
proof (intro conjI allI impI)
  show "parse_fecha_rango (d1 @ ws1 @ ''-'' @ ws2 @ d2 @ ws3 @ tok @ ws4 @ y)
           = (case MESES (filter (\<lambda>c. c \<noteq> CHR ''.'') (str_lower tok)) of
                None \<Rightarrow> Inl (UnknownMonthError (filter (\<lambda>c. c \<noteq> CHR ''.'') (str_lower tok)))
              | Some mes \<Rightarrow> Inr (int (digits_val d1), int (digits_val d2), mes, int (digits_val y)))"
    using parse_fecha_rango_forma [OF assms] by simp
next
  fix mes assume "MESES (filter (\<lambda>c. c \<noteq> CHR ''.'') (str_lower tok)) = Some mes"
  then show "1 \<le> mes" "mes \<le> 12" by (auto dest: MESES_keys)
next
  fix label assume "re_search RX_RANGO (str_lower (str_strip label)) = None"
  then show "parse_fecha_rango label = Inl (FormatError label)"
    by (simp add: parse_fecha_rango_def)
next
  fix label :: string assume "CHR ''-'' \<notin> set label"
  then show "parse_fecha_rango label = Inl (FormatError label)"
    by (rule parse_fecha_rango_sin_guion)
qed

theorem parse_fecha_rango_resuelve_witness:
  "parse_fecha_rango ''04 - 09 ago. 2025'' = Inr (4, 9, 8, 2025)
   \<and> parse_fecha_rango [] = Inl (FormatError [])"
proof -
  have d: "list_all is_digit ''04''" "list_all is_digit ''09''" "list_all is_digit ''2025''"
    by (simp_all add: is_digit_def code_def)
  have s: "list_all is_space '' ''" by (simp add: is_space_def code_def)
  have t: "list_all is_mes_char (str_lower ''ago.'')" by code_simp
  have k: "MESES (filter (\<lambda>c. c \<noteq> CHR ''.'') (str_lower ''ago.'')) = Some 8" by code_simp
  have v: "digits_val ''04'' = 4" "digits_val ''09'' = 9" "digits_val ''2025'' = 2025"
    by (simp_all add: digits_val_def digit_val_def code_def)
  have n: "re_search RX_RANGO (str_lower (str_strip [])) = None" by code_simp
  have h: "CHR ''-'' \<notin> set []" by simp
  note r = parse_fecha_rango_resuelve [OF d(1) _ _ s s d(2) _ _ s _ t _ s _ d(3), simplified]
  from r [THEN conjunct1] have a: "parse_fecha_rango ''04 - 09 ago. 2025'' = Inr (4, 9, 8, 2025)"
    by (simp add: k v)
  from r [THEN conjunct2, THEN conjunct1] k have b: "(1::int) \<le> 8 \<and> (8::int) \<le> 12"
    by blast
  from r [THEN conjunct2, THEN conjunct2, THEN conjunct1] n
  have c: "parse_fecha_rango [] = Inl (FormatError [])" by blast
  from r [THEN conjunct2, THEN conjunct2, THEN conjunct2] h
  have "parse_fecha_rango [] = Inl (FormatError [])" by blast
  with a b c show ?thesis by simp
qed

theorem parse_fecha_rango_counterexample:
  "parse_fecha_rango ''04 - 09 a.g.o 2025'' = Inr (4, 9, 8, 2025)"
  by code_simp

section \<open>A header with an impossible day\<close>

lemma rmatch_prefix: "rmatch rs bef rest ms = Some r \<Longrightarrow> \<exists>ext. r = ms @ ext"
proof (induction rs bef rest ms rule: rmatch.induct)
  case (2 c' rs bef rest ms)
  then show ?case by (cases rest) (auto split: if_splits)
next
  case (3 p lo hi rs bef rest ms)
  from "3.prems" obtain k where
    k: "k \<in> set (rev [lo ..< Suc (rep_max p hi rest)])"
    and m: "rmatch rs (rev (take k rest) @ bef) (drop k rest) ms = Some r"
    by (auto dest!: first_some_Some simp del: upt_Suc)
  from "3.IH" [OF k m] show ?case .
next
  case (4 rs bef rest ms)
  then have "\<exists>ext. r = (ms @ [length bef]) @ ext" by simp
  then show ?case by auto
next
  case (5 rs bef rest ms)
  then have "\<exists>ext. r = (ms @ [length bef]) @ ext" by simp
  then show ?case by auto
qed (simp_all split: if_splits)

lemma rep_max_le: "rep_max p hi rest \<le> length (takeWhile p rest)"
  by (simp add: rep_max_def Let_def split: option.splits)

lemma rmatch_grupo_digitos:
  assumes "rmatch (Open # Rep is_digit 1 hi # Close # rs) bef rest ms = Some r"
  shows "\<exists>k ext. 1 \<le> k \<and> k \<le> length (takeWhile is_digit rest)
           \<and> r = ms @ [length bef, length bef + k] @ ext"
proof -
  from assms obtain k where
    k: "k \<in> set (rev [1 ..< Suc (rep_max is_digit hi rest)])"
    and m: "rmatch (Close # rs) (rev (take k rest) @ bef) (drop k rest) (ms @ [length bef]) = Some r"
    by (auto dest!: first_some_Some simp del: upt_Suc)
  from k have k1: "1 \<le> k" and k2: "k \<le> length (takeWhile is_digit rest)"
    using rep_max_le [of is_digit hi rest] by auto
  from k2 have "k \<le> length rest"
    using length_takeWhile_le [of is_digit rest] by simp
  then have l: "length (rev (take k rest) @ bef) = length bef + k" by simp
  from m have "rmatch rs (rev (take k rest) @ bef) (drop k rest)
                 ((ms @ [length bef]) @ [length (rev (take k rest) @ bef)]) = Some r"
    by (simp only: rmatch.simps)
  from rmatch_prefix [OF this] obtain ext where
    "r = ((ms @ [length bef]) @ [length (rev (take k rest) @ bef)]) @ ext" ..
  then have "r = ms @ [length bef, length bef + k] @ ext"
    unfolding l by simp
  with k1 k2 show ?thesis by blast
qed

lemma take_run_digits:
  assumes "k \<le> length (takeWhile is_digit rest)"
  shows "list_all is_digit (take k rest)"
proof -
  have "take k rest = take k (takeWhile is_digit rest)"
    using assms by (metis takeWhile_dropWhile_id take_append take_all_iff append_Nil2 diff_is_0_eq take_0)
  moreover have "list_all is_digit (takeWhile is_digit rest)"
    by (simp add: list_all_iff) (meson set_takeWhileD)
  ultimately show ?thesis by (auto simp: list_all_iff dest: in_set_takeD)
qed

lemma re_search_SomeD:
  assumes "re_search rs s = Some r"
  shows "\<exists>i \<le> length s. rmatch rs (rev (take i s)) (drop i s) [] = Some r"
proof -
  from assms have "Some r \<in> set (map (\<lambda>i. rmatch rs (rev (take i s)) (drop i s) [])
                                  [0 ..< Suc (length s)])"
    unfolding re_search_def by (rule first_some_Some)
  then have "Some r \<in> (\<lambda>i. rmatch rs (rev (take i s)) (drop i s) []) ` set [0 ..< Suc (length s)]"
    by (simp only: set_map)
  then obtain i where "i \<in> set [0 ..< Suc (length s)]"
    and "Some r = rmatch rs (rev (take i s)) (drop i s) []" by (rule imageE)
  then have "i \<le> length s" and "rmatch rs (rev (take i s)) (drop i s) [] = Some r"
    by (simp_all del: upt_Suc)
  then show ?thesis by blast
qed

lemma re_search_grupo_digitos:
  assumes "re_search (pre @ Open # Rep is_digit 1 hi # Close # rs) h = Some ms"
    and "pre = [] \<or> pre = [WordB]"
  shows "\<exists>g gs. groups h ms = g # gs \<and> g \<noteq> [] \<and> list_all is_digit g"
proof -
  from re_search_SomeD [OF assms(1)] obtain i where i: "i \<le> length h"
    and m: "rmatch (pre @ Open # Rep is_digit 1 hi # Close # rs) (rev (take i h)) (drop i h) [] = Some ms"
    by blast
  from m assms(2) have "rmatch (Open # Rep is_digit 1 hi # Close # rs) (rev (take i h)) (drop i h) [] = Some ms"
    by (auto split: if_splits)
  from rmatch_grupo_digitos [OF this] obtain k ext where
    k: "1 \<le> k" "k \<le> length (takeWhile is_digit (drop i h))"
    and ms: "ms = [] @ [length (rev (take i h)), length (rev (take i h)) + k] @ ext" by blast
  from i have li: "length (rev (take i h)) = i" by simp
  have g: "groups h ms = take k (drop i h) # groups h ext"
    unfolding ms li by simp
  have "k \<le> length (drop i h)"
    using k(2) length_takeWhile_le [of is_digit "drop i h"] by linarith
  with k(1) have "take k (drop i h) \<noteq> []" by auto
  with g take_run_digits [OF k(2)] show ?thesis by blast
qed

lemma dia_en_header_digits:
  assumes "dia_en_header h = Some g"
  shows "g \<noteq> [] \<and> list_all is_digit g"
proof (cases "re_search RX_DIA_FIN h")
  case (Some ms)
  then have "re_search ([] @ Open # Rep is_digit 1 (Some 2) # Close # [Eol]) h = Some ms"
    by (simp add: RX_DIA_FIN_def)
  from re_search_grupo_digitos [OF this] obtain g' gs where
    "groups h ms = g' # gs" "g' \<noteq> []" "list_all is_digit g'" by blast
  with assms Some show ?thesis by (simp add: dia_en_header_def)
next
  case None
  with assms obtain ms where s: "re_search RX_DIA_B h = Some ms"
    by (auto simp: dia_en_header_def split: option.splits)
  then have "re_search ([WordB] @ Open # Rep is_digit 1 (Some 2) # Close # [WordB]) h = Some ms"
    by (simp add: RX_DIA_B_def)
  from re_search_grupo_digitos [OF this] obtain g' gs where
    "groups h ms = g' # gs" "g' \<noteq> []" "list_all is_digit g'" by blast
  with assms None s show ?thesis by (simp add: dia_en_header_def)
qed

lemma fecha_de_dia_header:
  assumes "dia_en_header h = Some g"
  shows "fecha_de_dia anio mes g = mk_date anio mes (int (digits_val g))"
  using dia_en_header_digits [OF assms] by (simp add: fecha_de_dia_def py_int_digits)

lemma mk_date_error: "mk_date y m d = Inl e \<Longrightarrow> e = ValueError_date"
  by (simp add: mk_date_def split: if_splits)

lemma mapear_fechas_error: "mapear_fechas anio mes hs = Inl e \<Longrightarrow> e = ValueError_date"
proof (induction hs arbitrary: e)
  case Nil
  then show ?case by simp
next
  case (Cons h hs)
  show ?case
  proof (cases "dia_en_header h")
    case None
    with Cons show ?thesis by (auto split: sum.splits)
  next
    case (Some g)
    with Cons show ?thesis
      by (auto simp: fecha_de_dia_header [OF Some] split: sum.splits dest: mk_date_error)
  qed
qed

lemma mapear_fechas_invalido:
  assumes "h \<in> set hs" and "dia_en_header h = Some g"
    and "\<not> valid_date anio mes (int (digits_val g))"
  shows "mapear_fechas anio mes hs = Inl ValueError_date"
  using assms(1)
proof (induction hs)
  case Nil
  then show ?case by simp
next
  case (Cons h' hs)
  show ?case
  proof (cases "h' = h")
    case True
    then show ?thesis
      using assms(2,3) by (simp add: fecha_de_dia_header [OF assms(2)] mk_date_def)
  next
    case False
    with Cons have r: "mapear_fechas anio mes hs = Inl ValueError_date" by simp
    show ?thesis
    proof (cases "dia_en_header h'")
      case None
      with r show ?thesis by simp
    next
      case (Some g')
      with r show ?thesis
        by (auto simp: fecha_de_dia_header [OF Some] split: sum.splits dest: mk_date_error)
    qed
  qed
qed

lemma capturar_semanas_error:
  "extraer_eventos_desde_html unescape html = Inl e \<Longrightarrow>
     capturar_semanas unescape (html # htmls) acumulados out = (Inl e, out)"
  by simp

text \<open>
  C10. When the label of a week is resolved and the table has a header row, and the day
  number that the extractor reads from some weekday header (a header cell after the
  first) is not a day of the label's month and year, the tabular extractor ends with the
  \<open>ValueError\<close> of \<open>date\<close> and gives no events for the week: the exception is raised while the
  column dates are built, before any cell is looked at. Nothing catches it before the end
  of the run, which exits with code 2.
\<close>

theorem encabezado_invalido_aborta:
  assumes "parse_fecha_rango (etiqueta_tabla html) = Inr (d1, d2, mes, anio)"
    and "horario_table html = Some tabla" and "thead_tr tabla = Some header_cells"
    and "c \<in> set (drop 1 header_cells)"
    and "dia_en_header (limpiar_texto unescape (get_text [] c)) = Some g"
    and "\<not> valid_date anio mes (int (digits_val g))"
  shows "extraer_eventos_desde_html unescape html = Inl ValueError_date
         \<and> main unescape (html # htmls)
           = \<lparr>exit_code = 2, stdout = [ERROR ValueError_date], exportados = None\<rparr>"
proof -
  have "limpiar_texto unescape (get_text [] c)
          \<in> set (map (\<lambda>c. limpiar_texto unescape (get_text [] c)) (drop 1 header_cells))"
    using assms(4) by simp
  from mapear_fechas_invalido [OF this assms(5,6)]
  have e: "extraer_eventos_desde_html unescape html = Inl ValueError_date"
    by (simp add: extraer_eventos_desde_html_def assms(1,2,3))
  then show ?thesis by (simp add: main_def)
qed

theorem encabezado_invalido_aborta_witness:
  "extraer_eventos_desde_html (\<lambda>x. x) html_dia_31 = Inl ValueError_date
   \<and> main (\<lambda>x. x) [html_dia_31, html_tabla]
     = \<lparr>exit_code = 2, stdout = [ERROR ValueError_date], exportados = None\<rparr>"
proof -
  have a: "parse_fecha_rango (etiqueta_tabla html_dia_31) = Inr (1, 6, 9, 2025)"
    by code_simp
  have b: "horario_table html_dia_31
             = Some \<lparr>thead_tr = Some [[''Hora''], [''Lunes 01''], [''Martes 31'']],
                     tbody_tr = [[[''08:00 - 09:30''], [''Calculo I / Sala 301''], [''Fisica'']]]\<rparr>"
    by (simp add: html_dia_31_def)
  have c: "thead_tr \<lparr>thead_tr = Some [[''Hora''], [''Lunes 01''], [''Martes 31'']],
                     tbody_tr = [[[''08:00 - 09:30''], [''Calculo I / Sala 301''], [''Fisica'']]]\<rparr>
             = Some [[''Hora''], [''Lunes 01''], [''Martes 31'']]"
    by simp
  have d: "[''Martes 31''] \<in> set (drop 1 [[''Hora''], [''Lunes 01''], [''Martes 31'']])"
    by simp
  have e: "dia_en_header (limpiar_texto (\<lambda>x. x) (get_text [] [''Martes 31''])) = Some ''31''"
    by code_simp
  have f: "\<not> valid_date 2025 9 (int (digits_val ''31''))"
    by code_simp
  from encabezado_invalido_aborta [OF a b c d e f, of "[html_tabla]"]
  show ?thesis .
qed

section \<open>Cells and items that give no event\<close>

lemma celdas_loop_omite:
  assumes "sin_contenido (limpiar_texto unescape (get_text '' '' td))
           \<or> fecha_celda anio mes fechas headers_dias idx = Inr None"
  shows "celdas_loop unescape anio mes fechas headers_dias t_ini t_fin (xs @ (idx, td) # ys)
         = celdas_loop unescape anio mes fechas headers_dias t_ini t_fin (xs @ ys)"
proof (induction xs)
  case Nil
  from assms show ?case by (auto simp: Let_def)
next
  case (Cons x xs)
  obtain i c where x: "x = (i, c)" by (cases x)
  show ?case unfolding x append_Cons celdas_loop.simps Cons.IH by (rule refl)
qed

lemma fecha_celda_sin_fecha:
  assumes "\<not> idx < length fechas \<or> fechas ! idx = None"
    and "dia_en_header (if idx < length headers_dias then headers_dias ! idx else []) = None"
  shows "fecha_celda anio mes fechas headers_dias idx = Inr None"
  using assms by (auto simp: fecha_celda_def Let_def)

lemma items_loop_omite:
  assumes "sin_contenido (limpiar_texto unescape (get_text '' '' item))"
  shows "items_loop unescape f (xs @ item # ys) = items_loop unescape f (xs @ ys)"
proof (induction xs)
  case Nil
  from assms show ?case by (simp add: Let_def)
next
  case (Cons x xs)
  show ?case unfolding append_Cons items_loop.simps Cons.IH by (rule refl)
qed

text \<open>
  C6. In the tabular strategy, a cell whose cleaned text is empty or begins with
  \<open>sin clases\<close> in any letter case gives no event, and neither does a cell for which the
  column map has no date and the header text of its column holds no day number: the
  row gives the events it would give without that cell, so the cells after it are still
  read. In the list strategy, an item whose cleaned text is empty or begins with
  \<open>sin clases\<close> gives no event, and the items after it are still read.
\<close>

theorem sin_evento_y_continua:
  "((let contenido = limpiar_texto unescape (get_text '' '' td) in
       contenido = [] \<or> str_startswith (str_lower contenido) ''sin clases'')
     \<or> ((\<not> idx < length fechas \<or> fechas ! idx = None)
         \<and> dia_en_header (if idx < length headers_dias then headers_dias ! idx else []) = None)
     \<longrightarrow> celdas_loop unescape anio mes fechas headers_dias t_ini t_fin (xs @ (idx, td) # ys)
         = celdas_loop unescape anio mes fechas headers_dias t_ini t_fin (xs @ ys))
   \<and> ((let txt = limpiar_texto unescape (get_text '' '' item) in
          txt = [] \<or> str_startswith (str_lower txt) ''sin clases'')
       \<longrightarrow> items_loop unescape f (is @ item # js) = items_loop unescape f (is @ js))"
proof (intro conjI impI)
  assume "(let contenido = limpiar_texto unescape (get_text '' '' td) in
             contenido = [] \<or> str_startswith (str_lower contenido) ''sin clases'')
          \<or> ((\<not> idx < length fechas \<or> fechas ! idx = None)
              \<and> dia_en_header (if idx < length headers_dias then headers_dias ! idx else []) = None)"
  then have "sin_contenido (limpiar_texto unescape (get_text '' '' td))
             \<or> fecha_celda anio mes fechas headers_dias idx = Inr None"
    using fecha_celda_sin_fecha [of idx fechas headers_dias anio mes]
    by (auto simp: sin_contenido_def Let_def)
  then show "celdas_loop unescape anio mes fechas headers_dias t_ini t_fin (xs @ (idx, td) # ys)
             = celdas_loop unescape anio mes fechas headers_dias t_ini t_fin (xs @ ys)"
    by (rule celdas_loop_omite)
next
  assume "let txt = limpiar_texto unescape (get_text '' '' item) in
            txt = [] \<or> str_startswith (str_lower txt) ''sin clases''"
  then have "sin_contenido (limpiar_texto unescape (get_text '' '' item))"
    by (simp add: sin_contenido_def Let_def)
  then show "items_loop unescape f (is @ item # js) = items_loop unescape f (is @ js)"
    by (rule items_loop_omite)
qed

theorem sin_evento_y_continua_witness:
  "celdas_loop (\<lambda>x. x) 2025 8 [Some (fst ev_lunes), None, Some (fst ev_martes)]
       [''Lunes 04'', ''Notas'', ''Martes 05''] (fst (snd ev_lunes)) (fst (snd (snd ev_lunes)))
       [(0, [''SIN  CLASES hoy'']), (1, [''Ver aula'']), (2, [''Fisica / Lab 2''])]
     = Inr [(fst ev_martes, fst (snd ev_lunes), fst (snd (snd ev_lunes)), ''Fisica'', ''Fisica / Lab 2'')]
   \<and> items_loop (\<lambda>x. x) (fst ev_lunes) [[''Sin clases''], [''08:00 - 09:30'', ''Calculo I / Sala 301'']]
     = Inr [ev_lunes]"
proof -
  let ?loop = "celdas_loop (\<lambda>x. x) 2025 8 [Some (fst ev_lunes), None, Some (fst ev_martes)]
       [''Lunes 04'', ''Notas'', ''Martes 05''] (fst (snd ev_lunes)) (fst (snd (snd ev_lunes)))"
  have a: "let contenido = limpiar_texto (\<lambda>x. x) (get_text '' '' [''SIN  CLASES hoy'']) in
             contenido = [] \<or> str_startswith (str_lower contenido) ''sin clases''"
    by code_simp
  have b: "(\<not> 1 < length [Some (fst ev_lunes), None, Some (fst ev_martes)]
              \<or> [Some (fst ev_lunes), None, Some (fst ev_martes)] ! 1 = None)
           \<and> dia_en_header (if 1 < length [''Lunes 04'', ''Notas'', ''Martes 05'']
                             then [''Lunes 04'', ''Notas'', ''Martes 05''] ! 1 else []) = None"
    by code_simp
  have c: "let txt = limpiar_texto (\<lambda>x. x) (get_text '' '' [''Sin clases'']) in
             txt = [] \<or> str_startswith (str_lower txt) ''sin clases''"
    by code_simp
  have "?loop ([] @ (0, [''SIN  CLASES hoy'']) # [(1, [''Ver aula'']), (2, [''Fisica / Lab 2''])])
        = ?loop ([] @ [(1, [''Ver aula'']), (2, [''Fisica / Lab 2''])])"
    using sin_evento_y_continua [THEN conjunct1] a by blast
  moreover have "?loop ([] @ (1, [''Ver aula'']) # [(2, [''Fisica / Lab 2''])])
        = ?loop ([] @ [(2, [''Fisica / Lab 2''])])"
    using sin_evento_y_continua [THEN conjunct1] b by blast
  moreover have "?loop [(2, [''Fisica / Lab 2''])]
        = Inr [(fst ev_martes, fst (snd ev_lunes), fst (snd (snd ev_lunes)), ''Fisica'', ''Fisica / Lab 2'')]"
    by code_simp
  moreover have "items_loop (\<lambda>x. x) (fst ev_lunes)
                   ([] @ [''Sin clases''] # [[''08:00 - 09:30'', ''Calculo I / Sala 301'']])
        = items_loop (\<lambda>x. x) (fst ev_lunes) ([] @ [[''08:00 - 09:30'', ''Calculo I / Sala 301'']])"
    using sin_evento_y_continua [THEN conjunct2] c by blast
  moreover have "items_loop (\<lambda>x. x) (fst ev_lunes) [[''08:00 - 09:30'', ''Calculo I / Sala 301'']]
        = Inr [ev_lunes]"
    by code_simp
  ultimately show ?thesis by (simp only: append_Nil)
qed

section \<open>The run and its two strategies\<close>

lemma extraer_sin_tabla:
  assumes "parse_fecha_rango (etiqueta_tabla html) = Inr r"
    and "horario_table html = None \<or> (\<exists>t. horario_table html = Some t \<and> thead_tr t = None)"
  shows "extraer_eventos_desde_html unescape html = Inr []"
  using assms by (cases r) (auto simp: extraer_eventos_desde_html_def)





text \<open>
  C4, as the code has it. The tabular strategy reads the range label before it looks for
  the table. For a snapshot whose label it resolves, it returns the empty sequence when
  there is no table or no header row. The caller runs the tabular strategy first: when it
  returns events, exactly these are accumulated for the week and the fallback is not
  announced; when it returns none, exactly the events of the list strategy are
  accumulated. The two results are never joined.
\<close>

theorem tabular_primero:
  "(parse_fecha_rango (etiqueta_tabla html) = Inr r
      \<and> (horario_table html = None \<or> (\<exists>t. horario_table html = Some t \<and> thead_tr t = None))
     \<longrightarrow> extraer_eventos_desde_html unescape html = Inr [])
   \<and> (extraer_eventos_desde_html unescape html = Inr evs \<and> evs \<noteq> []
     \<longrightarrow> capturar_semanas unescape (html # rest) acumulados out
         = capturar_semanas unescape rest (acumulados @ evs) out)
   \<and> (extraer_eventos_desde_html unescape html = Inr []
       \<and> extraer_eventos_fallback_movil unescape html = Inr evs'
     \<longrightarrow> capturar_semanas unescape (html # rest) acumulados out
         = capturar_semanas unescape rest (acumulados @ evs') (out @ [Probando_fallback]))"
  using extraer_sin_tabla [of html r unescape] by auto

theorem tabular_primero_witness:
  "extraer_eventos_desde_html (\<lambda>x. x) html_movil = Inr []
   \<and> capturar_semanas (\<lambda>x. x) [html_tabla] [] [] = (Inr [ev_lunes], [])
   \<and> capturar_semanas (\<lambda>x. x) [html_movil] [] []
     = (Inr [(\<lparr>year = 2025, month = 8, day = 11\<rparr>, \<lparr>hour = 8, minute = 0, second = 0\<rparr>,
              \<lparr>hour = 9, minute = 30, second = 0\<rparr>, ''Calculo I'', ''Calculo I / Sala 301'')],
        [Probando_fallback])"
proof -
  have a: "parse_fecha_rango (etiqueta_tabla html_movil) = Inr (11, 16, 8, 2025)
           \<and> (horario_table html_movil = None
               \<or> (\<exists>t. horario_table html_movil = Some t \<and> thead_tr t = None))"
    by (rule conjI, code_simp, simp add: html_movil_def)
  have b: "extraer_eventos_desde_html (\<lambda>x. x) html_tabla = Inr [ev_lunes] \<and> [ev_lunes] \<noteq> []"
    by (rule conjI, code_simp, simp)
  have c: "extraer_eventos_fallback_movil (\<lambda>x. x) html_movil
           = Inr [(\<lparr>year = 2025, month = 8, day = 11\<rparr>, \<lparr>hour = 8, minute = 0, second = 0\<rparr>,
                   \<lparr>hour = 9, minute = 30, second = 0\<rparr>, ''Calculo I'', ''Calculo I / Sala 301'')]"
    by code_simp
  from tabular_primero [of html_movil "(11, 16, 8, 2025)" "\<lambda>x. x"] a
  have 1: "extraer_eventos_desde_html (\<lambda>x. x) html_movil = Inr []" by blast
  from tabular_primero [of html_tabla _ "\<lambda>x. x" "[ev_lunes]" "[]" "[]" "[]"] b
  have 2: "capturar_semanas (\<lambda>x. x) [html_tabla] [] [] = (Inr [ev_lunes], [])" by simp
  from tabular_primero [of html_movil _ "\<lambda>x. x" _ "[]" "[]" "[]"] 1 c
  have 3: "capturar_semanas (\<lambda>x. x) [html_movil] [] []
     = (Inr [(\<lparr>year = 2025, month = 8, day = 11\<rparr>, \<lparr>hour = 8, minute = 0, second = 0\<rparr>,
              \<lparr>hour = 9, minute = 30, second = 0\<rparr>, ''Calculo I'', ''Calculo I / Sala 301'')],
        [Probando_fallback])" by simp
  from 1 2 3 show ?thesis by blast
qed

theorem tabular_primero_counterexample:
  "horario_table html_sin_rango = None
   \<and> extraer_eventos_desde_html (\<lambda>x. x) html_sin_rango = Inl (FormatError ''Semana actual'')"
  by (rule conjI, simp add: html_sin_rango_def, code_simp)

section \<open>Title and description in the two strategies\<close>

lemma sin_dobles_Cons_no_space: "\<not> is_space a \<Longrightarrow> sin_dobles (a # s) = sin_dobles s"
  by (cases s) simp_all

lemma sin_dobles_Cons_space:
  "is_space a \<Longrightarrow> sin_dobles (a # s) = ((s = [] \<or> \<not> is_space (hd s)) \<and> sin_dobles s)"
  by (cases s) simp_all

lemma sin_dobles_tl: "sin_dobles (a # s) \<Longrightarrow> sin_dobles s"
  by (cases s) simp_all

lemma sub_ws_hd: "s = [] \<or> \<not> is_space (hd s) \<Longrightarrow> sub_ws s = [] \<or> \<not> is_space (hd (sub_ws s))"
  by (cases s) auto

lemma dropWhile_hd: "dropWhile p s = [] \<or> \<not> p (hd (dropWhile p s))"
  using hd_dropWhile [of p s] by blast

lemma sin_dobles_sub_ws: "sin_dobles (sub_ws s)"
proof (induction s rule: sub_ws.induct)
  case 1
  then show ?case by simp
next
  case (2 c cs)
  show ?case
  proof (cases "is_space c")
    case True
    have sp: "is_space CHR '' ''" by (simp add: is_space_def code_def)
    from True 2 have "sin_dobles (sub_ws (dropWhile is_space cs))" by simp
    moreover have "sub_ws (dropWhile is_space cs) = []
                   \<or> \<not> is_space (hd (sub_ws (dropWhile is_space cs)))"
      by (rule sub_ws_hd) (rule dropWhile_hd)
    ultimately show ?thesis using True by (simp add: sin_dobles_Cons_space [OF sp])
  next
    case False
    with 2 show ?thesis by (simp add: sin_dobles_Cons_no_space)
  qed
qed

lemma sub_ws_spaces: "list_all (\<lambda>x. is_space x \<longrightarrow> x = CHR '' '') (sub_ws s)"
  by (induction s rule: sub_ws.induct) auto

lemma sin_dobles_append: "sin_dobles (u @ a # b # v) \<Longrightarrow> \<not> (is_space a \<and> is_space b)"
proof (induction u)
  case Nil
  then show ?case by simp
next
  case (Cons x u)
  from Cons.prems have "sin_dobles (u @ a # b # v)"
    unfolding append_Cons by (rule sin_dobles_tl)
  then show ?case by (rule Cons.IH)
qed

lemma sin_dobles_iff:
  "sin_dobles s \<longleftrightarrow> (\<forall>u a b v. s = u @ a # b # v \<longrightarrow> \<not> (is_space a \<and> is_space b))"
proof
  assume "sin_dobles s"
  then show "\<forall>u a b v. s = u @ a # b # v \<longrightarrow> \<not> (is_space a \<and> is_space b)"
    using sin_dobles_append by blast
next
  assume "\<forall>u a b v. s = u @ a # b # v \<longrightarrow> \<not> (is_space a \<and> is_space b)"
  then show "sin_dobles s"
  proof (induction s rule: sin_dobles.induct)
    case (1 a b cs)
    have "\<not> (is_space a \<and> is_space b)" using "1.prems" [rule_format, of "[]" a b cs] by simp
    moreover have "sin_dobles (b # cs)"
    proof (rule "1.IH", intro allI impI)
      fix u x y v assume "b # cs = u @ x # y # v"
      then have "a # b # cs = (a # u) @ x # y # v" by simp
      with "1.prems" show "\<not> (is_space x \<and> is_space y)" by blast
    qed
    ultimately show ?case by simp
  qed simp_all
qed

lemma sin_dobles_rev: "sin_dobles s \<Longrightarrow> sin_dobles (rev s)"
proof -
  assume s: "sin_dobles s"
  show ?thesis unfolding sin_dobles_iff
  proof (intro allI impI)
    fix u a b v assume "rev s = u @ a # b # v"
    then have "s = rev (u @ a # b # v)" by (metis rev_rev_ident)
    then have "s = rev v @ b # a # rev u" by simp
    with s sin_dobles_append [of "rev v" b a "rev u"] show "\<not> (is_space a \<and> is_space b)" by blast
  qed
qed

lemma sin_dobles_dropWhile: "sin_dobles s \<Longrightarrow> sin_dobles (dropWhile p s)"
  by (induction s) (auto dest: sin_dobles_tl)

lemma sin_dobles_strip: "sin_dobles s \<Longrightarrow> sin_dobles (str_strip s)"
  by (simp add: str_strip_def sin_dobles_rev sin_dobles_dropWhile)

lemma last_dropWhile_eq: "dropWhile p s \<noteq> [] \<Longrightarrow> last (dropWhile p s) = last s"
  by (induction s) (auto split: if_splits)

lemma str_strip_ends:
  "str_strip s = [] \<or> (\<not> is_space (hd (str_strip s)) \<and> \<not> is_space (last (str_strip s)))"
proof (cases "str_strip s = []")
  case True
  then show ?thesis by simp
next
  case False
  define t where "t = dropWhile is_space s"
  define u where "u = dropWhile is_space (rev t)"
  have st: "str_strip s = rev u" by (simp add: str_strip_def t_def u_def)
  with False have un: "u \<noteq> []" by simp
  then have tn: "t \<noteq> []" by (auto simp: u_def)
  have "\<not> is_space (hd u)" using un hd_dropWhile [of is_space "rev t"] by (simp add: u_def)
  then have l: "\<not> is_space (last (str_strip s))" using un by (simp add: st last_rev)
  have "last u = last (rev t)" using un unfolding u_def by (rule last_dropWhile_eq)
  also have "\<dots> = hd t" using tn by (simp add: last_rev)
  finally have "hd (str_strip s) = hd t" using un by (simp add: st hd_rev)
  moreover have "\<not> is_space (hd t)" using tn hd_dropWhile [of is_space s] by (simp add: t_def)
  ultimately show ?thesis using l by simp
qed

lemma limpio_limpiar_texto: "limpio (limpiar_texto unescape x)"
proof -
  have "list_all (\<lambda>x. is_space x \<longrightarrow> x = CHR '' '') (str_strip (sub_ws (unescape x)))"
    using sub_ws_spaces [of "unescape x"] set_str_strip [of "sub_ws (unescape x)"]
    by (auto simp: list_all_iff)
  then show ?thesis
    unfolding limpio_def limpiar_texto_def
    using str_strip_ends [of "sub_ws (unescape x)"] sin_dobles_strip [OF sin_dobles_sub_ws]
    by blast
qed

lemma split_from_first:
  assumes "sep \<noteq> []"
  shows "\<exists>p ps. split_from sep cur s = (rev cur @ p) # ps \<and> (s = p \<or> (\<exists>rest. s = p @ sep @ rest))"
proof (induction s arbitrary: cur)
  case Nil
  then show ?case by simp
next
  case (Cons x xs)
  show ?case
  proof (cases "str_startswith (x # xs) sep")
    case True
    then have "x # xs = sep @ drop (length sep) (x # xs)"
      by (metis append_take_drop_id str_startswith_def)
    then have "x # xs = [] @ sep @ drop (length sep) (x # xs)" by simp
    moreover have "split_from sep cur (x # xs)
                   = (rev cur @ []) # split_from sep [] (drop (length sep - 1) xs)"
      using True assms by simp
    ultimately show ?thesis by blast
  next
    case False
    from Cons [of "x # cur"] obtain p ps where
      a: "split_from sep (x # cur) xs = (rev (x # cur) @ p) # ps"
      and b: "xs = p \<or> (\<exists>rest. xs = p @ sep @ rest)" by blast
    from a False have "split_from sep cur (x # xs) = (rev cur @ (x # p)) # ps" by simp
    moreover from b have "x # xs = x # p \<or> (\<exists>rest. x # xs = (x # p) @ sep @ rest)" by auto
    ultimately show ?thesis by blast
  qed
qed

lemma primer_segmento_limpio:
  assumes "limpio c" and "c \<noteq> []"
  shows "\<exists>p ps. str_split c '' / '' = p # ps \<and> p \<noteq> [] \<and> str_strip p = p"
proof -
  from split_from_first [of "'' / ''" "[]" c] obtain p ps where
    s: "str_split c '' / '' = p # ps" and d: "c = p \<or> (\<exists>rest. c = p @ '' / '' @ rest)"
    by (auto simp: str_split_def)
  have sp: "is_space CHR '' ''" by (simp add: is_space_def code_def)
  from assms have h: "\<not> is_space (hd c)" and l: "\<not> is_space (last c)" and sd: "sin_dobles c"
    by (auto simp: limpio_def)
  have pn: "p \<noteq> []"
  proof
    assume "p = []"
    with d assms(2) obtain rest where "c = '' / '' @ rest" by auto
    then have "hd c = CHR '' ''" by simp
    with h sp show False by simp
  qed
  have hp: "\<not> is_space (hd p)" using d h pn by auto
  have lp: "\<not> is_space (last p)"
  proof (cases "c = p")
    case True
    with l show ?thesis by simp
  next
    case False
    with d obtain rest where c: "c = p @ '' / '' @ rest" by auto
    from pn obtain p0 x where p: "p = p0 @ [x]" by (metis rev_exhaust)
    from c have "c = p0 @ x # CHR '' '' # (''/ '' @ rest)" by (simp add: p)
    with sd sin_dobles_append have "\<not> (is_space x \<and> is_space CHR '' '')" by blast
    with sp show ?thesis by (simp add: p)
  qed
  from pn hp lp have "str_strip p = p" by (rule str_strip_id)
  with s pn show ?thesis by blast
qed

lemma resumen_iguales:
  assumes "limpio c" and "c \<noteq> []"
  shows "resumen_tabla c = resumen_movil c"
proof -
  from primer_segmento_limpio [OF assms] obtain p ps where
    "str_split c '' / '' = p # ps" "p \<noteq> []" "str_strip p = p" by blast
  then show ?thesis by (simp add: resumen_tabla_def resumen_movil_def)
qed

lemma rmatch_Rep_all:
  assumes "list_all p xs" and "case hi of None \<Rightarrow> True | Some h \<Rightarrow> length xs \<le> h"
    and "lo \<le> length xs" and "rmatch rs (rev xs @ bef) [] ms = Some r"
  shows "rmatch (Rep p lo hi # rs) bef xs ms = Some r"
  using rmatch_Rep_run [OF assms(1) _ assms(2,3), of "[]" rs bef ms r] assms(4) by simp

lemma limpio_no_newline: "limpio c \<Longrightarrow> list_all not_newline c"
proof -
  assume "limpio c"
  then have a: "list_all (\<lambda>x. is_space x \<longrightarrow> x = CHR '' '') c" by (simp add: limpio_def)
  have "is_space CHR 0x0A" by (simp add: is_space_def code_def)
  with a show ?thesis by (auto simp: list_all_iff not_newline_def)
qed

lemma groups_three:
  "groups (A @ B @ C @ D @ E)
     [0, length A, length A + length B, length A + length B + length C,
      length A + length B + length C + length D,
      length A + length B + length C + length D + length E]
   = [A, C, E]"
  by (simp add: add.assoc)

lemma re_match_ITEM:
  assumes h1: "list_all is_digit h1" "1 \<le> length h1" "length h1 \<le> 2"
    and m1: "list_all is_digit m1" "length m1 = 2"
    and ws: "list_all is_space ws1" "list_all is_space ws2"
    and h2: "list_all is_digit h2" "1 \<le> length h2" "length h2 \<le> 2"
    and m2: "list_all is_digit m2" "length m2 = 2"
    and c: "limpio c" "c \<noteq> []"
  shows "\<exists>ms. re_match RX_ITEM
                (h1 @ CHR '':'' # m1 @ ws1 @ CHR ''-'' # ws2 @ h2 @ CHR '':'' # m2 @ CHR '' '' # c)
              = Some ms
            \<and> groups (h1 @ CHR '':'' # m1 @ ws1 @ CHR ''-'' # ws2 @ h2 @ CHR '':'' # m2 @ CHR '' '' # c) ms
              = [h1 @ CHR '':'' # m1, h2 @ CHR '':'' # m2, c]"
proof -
  define A where "A = h1 @ CHR '':'' # m1"
  define B where "B = ws1 @ CHR ''-'' # ws2"
  define C where "C = h2 @ CHR '':'' # m2"
  let ?txt = "h1 @ CHR '':'' # m1 @ ws1 @ CHR ''-'' # ws2 @ h2 @ CHR '':'' # m2 @ CHR '' '' # c"
  let ?bef = "rev (h1 @ CHR '':'' # m1 @ ws1 @ CHR ''-'' # ws2 @ h2 @ CHR '':'' # m2) @ []"
  let ?ms = "[] @ [length ([]::string), length ([]::string) + length h1 + 3,
                   length ([]::string) + length h1 + 3 + length ws1 + 1 + length ws2,
                   length ([]::string) + length h1 + 3 + length ws1 + 1 + length ws2 + length h2 + 3]"
  have sp: "list_all is_space [CHR '' '']" by (simp add: is_space_def code_def)
  have e1: "c = [] \<or> \<not> is_space (hd c)" using c by (simp add: limpio_def)
  have k: "rmatch [Rep is_space 1 None, Open, Rep not_newline 1 None, Close] ?bef ([CHR '' ''] @ c) ?ms
           = Some ((?ms @ [length (rev [CHR '' ''] @ ?bef)]) @ [length (rev c @ rev [CHR '' ''] @ ?bef)])"
    apply (rule rmatch_Rep_run [OF sp e1])
      apply simp
     apply simp
    apply (simp only: rmatch.simps(4))
    apply (rule rmatch_Rep_all [OF limpio_no_newline [OF c(1)]])
      apply simp
     apply (use c in \<open>simp add: Suc_le_eq\<close>)
    apply (simp only: rmatch.simps(5) rmatch.simps(1))
    done
  have "rmatch (RX_BLOQUE @ [Rep is_space 1 None, Open, Rep not_newline 1 None, Close]) []
          (h1 @ CHR '':'' # m1 @ ws1 @ CHR ''-'' # ws2 @ h2 @ CHR '':'' # m2 @ [CHR '' ''] @ c) []
        = Some ((?ms @ [length (rev [CHR '' ''] @ ?bef)]) @ [length (rev c @ rev [CHR '' ''] @ ?bef)])"
    by (rule rmatch_BLOQUE [OF h1 m1 ws h2 m2 k])
  then have m: "re_match RX_ITEM ?txt
        = Some ((?ms @ [length (rev [CHR '' ''] @ ?bef)]) @ [length (rev c @ rev [CHR '' ''] @ ?bef)])"
    by (simp add: re_match_def RX_ITEM_def)
  have t: "?txt = A @ B @ C @ [CHR '' ''] @ c" by (simp add: A_def B_def C_def)
  have mk: "(?ms @ [length (rev [CHR '' ''] @ ?bef)]) @ [length (rev c @ rev [CHR '' ''] @ ?bef)]
            = [0, length A, length A + length B, length A + length B + length C,
               length A + length B + length C + length [CHR '' ''],
               length A + length B + length C + length [CHR '' ''] + length c]"
    using m1 m2 by (simp add: A_def B_def C_def)
  have "groups ?txt ((?ms @ [length (rev [CHR '' ''] @ ?bef)]) @ [length (rev c @ rev [CHR '' ''] @ ?bef)])
        = [A, C, c]"
    unfolding t mk by (rule groups_three)
  with m show ?thesis unfolding A_def C_def by blast
qed

lemma digit_no_sin_contenido: "is_digit x \<Longrightarrow> \<not> sin_contenido (x # xs)"
proof
  assume d: "is_digit x" and "sin_contenido (x # xs)"
  then have "take (length ''sin clases'') (str_lower (x # xs)) = ''sin clases''"
    by (simp only: sin_contenido_def str_startswith_def) simp
  then have "lower_char x = CHR ''s''" by (simp add: str_lower_def)
  with d show False by (simp add: lower_digit is_digit_def code_def)
qed

lemma resumen_movil_hd: "resumen_movil c = hd (str_split c '' / '')"
  using split_from_first [of "'' / ''" "[]" c]
  by (auto simp: resumen_movil_def str_split_def)

lemma items_loop_uno:
  assumes h1: "list_all is_digit h1" "1 \<le> length h1" "length h1 \<le> 2"
    and m1: "list_all is_digit m1" "length m1 = 2"
    and ws: "list_all is_space ws1" "list_all is_space ws2"
    and h2: "list_all is_digit h2" "1 \<le> length h2" "length h2 \<le> 2"
    and m2: "list_all is_digit m2" "length m2 = 2"
    and c: "limpio c" "c \<noteq> []"
    and r: "digits_val h1 \<le> 23" "digits_val m1 \<le> 59" "digits_val h2 \<le> 23" "digits_val m2 \<le> 59"
    and it: "limpiar_texto unescape (get_text '' '' item)
              = h1 @ CHR '':'' # m1 @ ws1 @ CHR ''-'' # ws2 @ h2 @ CHR '':'' # m2 @ CHR '' '' # c"
  shows "items_loop unescape f [item]
         = Inr [(f, \<lparr>hour = digits_val h1, minute = digits_val m1, second = 0\<rparr>,
                 \<lparr>hour = digits_val h2, minute = digits_val m2, second = 0\<rparr>, resumen_movil c, c)]"
proof -
  let ?txt = "h1 @ CHR '':'' # m1 @ ws1 @ CHR ''-'' # ws2 @ h2 @ CHR '':'' # m2 @ CHR '' '' # c"
  obtain x xs where x: "h1 = x # xs" using h1(2) by (cases h1) auto
  with h1(1) have "is_digit x" by simp
  then have ns: "\<not> sin_contenido ?txt" unfolding x append_Cons by (rule digit_no_sin_contenido)
  from re_match_ITEM [OF h1 m1 ws h2 m2 c] obtain ms where
    m: "re_match RX_ITEM ?txt = Some ms"
    and g: "groups ?txt ms = [h1 @ CHR '':'' # m1, h2 @ CHR '':'' # m2, c]" by blast
  have n: "h1 \<noteq> []" "m1 \<noteq> []" "h2 \<noteq> []" "m2 \<noteq> []" using h1 m1 h2 m2 by auto
  have t1: "hhmm_to_time ([h1 @ CHR '':'' # m1, h2 @ CHR '':'' # m2, c] ! 0)
            = Inr \<lparr>hour = digits_val h1, minute = digits_val m1, second = 0\<rparr>"
    using r by (simp add: hhmm_to_time_digits h1 m1 n mk_time_def)
  have t2: "hhmm_to_time ([h1 @ CHR '':'' # m1, h2 @ CHR '':'' # m2, c] ! 1)
            = Inr \<lparr>hour = digits_val h2, minute = digits_val m2, second = 0\<rparr>"
    using r by (simp add: hhmm_to_time_digits h2 m2 n mk_time_def)
  have s: "str_strip ([h1 @ CHR '':'' # m1, h2 @ CHR '':'' # m2, c] ! 2) = c"
    using c by (simp add: limpio_def str_strip_id)
  show ?thesis
    unfolding items_loop.simps it Let_def
    by (simp only: ns if_False m option.case g t1 t2 s sum.case)
qed

lemma celdas_loop_uno:
  assumes "limpiar_texto unescape (get_text '' '' td) = c" and "\<not> sin_contenido c"
    and "fecha_celda anio mes fechas headers_dias idx = Inr (Some f)"
  shows "celdas_loop unescape anio mes fechas headers_dias t_ini t_fin [(idx, td)]
         = Inr [(f, t_ini, t_fin, resumen_tabla c, c)]"
  using assms by (simp add: Let_def)

text \<open>
  C8, as the code has it. Both strategies clean text with \<open>limpiar_texto\<close>. The title is
  the first segment of the cleaned content when it is cut at every \<open>space slash space\<close>
  (a slash without the two spaces does not cut), and the description is the whole cleaned
  content; on cleaned text the two ways in which the strategies take that segment give
  the same string. So when a content, not empty and not a \<open>sin clases\<close> marker, stands in
  a table cell with a date and in a list item behind a time block, the two strategies
  give events with the same title and the same description, and with the same date and
  times the same tuple, hence the same identity.
\<close>

theorem mismo_titulo_y_descripcion:
  assumes "limpiar_texto unescape (get_text '' '' td) = c"
    and "c \<noteq> []" and "\<not> str_startswith (str_lower c) ''sin clases''"
    and "fecha_celda anio mes fechas headers_dias idx = Inr (Some f)"
    and "limpiar_texto unescape (get_text '' '' item)
           = h1 @ '':'' @ m1 @ ws1 @ ''-'' @ ws2 @ h2 @ '':'' @ m2 @ '' '' @ c"
    and "list_all is_digit h1" and "1 \<le> length h1" and "length h1 \<le> 2"
    and "list_all is_digit m1" and "length m1 = 2"
    and "list_all is_space ws1" and "list_all is_space ws2"
    and "list_all is_digit h2" and "1 \<le> length h2" and "length h2 \<le> 2"
    and "list_all is_digit m2" and "length m2 = 2"
    and "digits_val h1 \<le> 23" and "digits_val m1 \<le> 59"
    and "digits_val h2 \<le> 23" and "digits_val m2 \<le> 59"
    and "t_ini = \<lparr>hour = digits_val h1, minute = digits_val m1, second = 0\<rparr>"
    and "t_fin = \<lparr>hour = digits_val h2, minute = digits_val m2, second = 0\<rparr>"
  shows "celdas_loop unescape anio mes fechas headers_dias t_ini t_fin [(idx, td)]
           = Inr [(f, t_ini, t_fin, hd (str_split c '' / ''), c)]
         \<and> items_loop unescape f [item] = Inr [(f, t_ini, t_fin, hd (str_split c '' / ''), c)]
         \<and> resumen_tabla c = resumen_movil c"
proof -
  have l: "limpio c" using limpio_limpiar_texto [of unescape "get_text '' '' td"] assms(1) by simp
  have e: "resumen_tabla c = resumen_movil c" using l assms(2) by (rule resumen_iguales)
  have ns: "\<not> sin_contenido c" using assms(2,3) by (simp add: sin_contenido_def)
  have it: "limpiar_texto unescape (get_text '' '' item)
              = h1 @ CHR '':'' # m1 @ ws1 @ CHR ''-'' # ws2 @ h2 @ CHR '':'' # m2 @ CHR '' '' # c"
    using assms(5) by simp
  have a: "celdas_loop unescape anio mes fechas headers_dias t_ini t_fin [(idx, td)]
           = Inr [(f, t_ini, t_fin, resumen_tabla c, c)]"
    using assms(1) ns assms(4) by (rule celdas_loop_uno)
  have b: "items_loop unescape f [item] = Inr [(f, t_ini, t_fin, resumen_movil c, c)]"
    unfolding assms(22,23)
    by (rule items_loop_uno [OF assms(6-17) l assms(2) assms(18-21) it])
  from a b e show ?thesis by (simp add: resumen_movil_hd)
qed

theorem mismo_titulo_y_descripcion_witness:
  "celdas_loop (\<lambda>x. x) 2025 8 [Some (fst ev_lunes)] [''Lunes 04'']
       (fst (snd ev_lunes)) (fst (snd (snd ev_lunes))) [(0, [''Calculo I'', ''/  Sala 301''])]
     = Inr [ev_lunes]
   \<and> items_loop (\<lambda>x. x) (fst ev_lunes) [[''8:00 - 09:30'', ''Calculo I / Sala 301'']]
     = Inr [ev_lunes]"
proof -
  have 1: "limpiar_texto (\<lambda>x. x) (get_text '' '' [''Calculo I'', ''/  Sala 301''])
           = ''Calculo I / Sala 301''"
    by code_simp
  have 2: "''Calculo I / Sala 301'' \<noteq> []" by simp
  have 3: "\<not> str_startswith (str_lower ''Calculo I / Sala 301'') ''sin clases''"
    by code_simp
  have 4: "fecha_celda 2025 8 [Some (fst ev_lunes)] [''Lunes 04''] 0 = Inr (Some (fst ev_lunes))"
    by code_simp
  have 5: "limpiar_texto (\<lambda>x. x) (get_text '' '' [''8:00 - 09:30'', ''Calculo I / Sala 301''])
           = ''8'' @ '':'' @ ''00'' @ '' '' @ ''-'' @ '' '' @ ''09'' @ '':'' @ ''30'' @ '' ''
             @ ''Calculo I / Sala 301''"
    by code_simp
  have d: "list_all is_digit ''8''" "list_all is_digit ''00''" "list_all is_digit ''09''"
    "list_all is_digit ''30''"
    by (simp_all add: is_digit_def code_def)
  have s: "list_all is_space '' ''" by (simp add: is_space_def code_def)
  have v: "digits_val ''8'' = 8" "digits_val ''00'' = 0" "digits_val ''09'' = 9"
    "digits_val ''30'' = 30"
    by (simp_all add: digits_val_def digit_val_def code_def)
  have t: "fst (snd ev_lunes) = \<lparr>hour = digits_val ''8'', minute = digits_val ''00'', second = 0\<rparr>"
    "fst (snd (snd ev_lunes)) = \<lparr>hour = digits_val ''09'', minute = digits_val ''30'', second = 0\<rparr>"
    by (simp_all add: v ev_lunes_def)
  have h: "hd (str_split ''Calculo I / Sala 301'' '' / '') = ''Calculo I''" by code_simp
  have ev: "(fst ev_lunes, fst (snd ev_lunes), fst (snd (snd ev_lunes)), ''Calculo I'',
             ''Calculo I / Sala 301'') = ev_lunes"
    by (simp add: ev_lunes_def)
  from mismo_titulo_y_descripcion [OF 1 2 3 4 5 d(1) _ _ d(2) _ s s d(3) _ _ d(4) _ _ _ _ _ t]
  show ?thesis by (simp only: h ev) (simp add: v)
qed

theorem mismo_titulo_counterexample:
  "limpiar_texto (\<lambda>x. x) ''Taller A/B'' = ''Taller A/B''
   \<and> resumen_tabla ''Taller A/B'' = ''Taller A/B''
   \<and> resumen_movil ''Taller A/B'' = ''Taller A/B''
   \<and> primer_segmento_barra ''Taller A/B'' = ''Taller A''"
  by code_simp

section \<open>A match has all its groups\<close>

text \<open>
  A successful match records one position for every parenthesis of the pattern, so the
  groups that the source reads by number are there.
\<close>

lemma rmatch_length:
  "rmatch rs bef rest ms = Some r \<Longrightarrow> length r = length ms + length (filter is_paren rs)"
proof (induction rs bef rest ms rule: rmatch.induct)
  case (2 c' rs bef rest ms)
  then show ?case by (cases rest) (auto split: if_splits)
next
  case (3 p lo hi rs bef rest ms)
  from "3.prems" obtain k where
    k: "k \<in> set (rev [lo ..< Suc (rep_max p hi rest)])"
    and m: "rmatch rs (rev (take k rest) @ bef) (drop k rest) ms = Some r"
    by (auto dest!: first_some_Some simp del: upt_Suc)
  from "3.IH" [OF k m] show ?case by simp
qed (auto split: if_splits)

lemma groups_length: "length (groups s ms) = length ms div 2"
  by (induction s ms rule: groups.induct) simp_all

lemma re_search_length:
  "re_search rs s = Some ms \<Longrightarrow> length (groups s ms) = length (filter is_paren rs) div 2"
  using re_search_SomeD [of rs s ms] rmatch_length [of rs _ _ "[]" ms]
  by (auto simp: groups_length)

lemma re_match_length:
  "re_match rs s = Some ms \<Longrightarrow> length (groups s ms) = length (filter is_paren rs) div 2"
  using rmatch_length [of rs "[]" s "[]" ms] by (simp add: re_match_def groups_length)

lemma groups_RANGO: "re_search RX_RANGO s = Some ms \<Longrightarrow> length (groups s ms) = 4"
  by (drule re_search_length) (simp add: RX_RANGO_def)

lemma groups_DIA_FIN: "re_search RX_DIA_FIN s = Some ms \<Longrightarrow> length (groups s ms) = 1"
  by (drule re_search_length) (simp add: RX_DIA_FIN_def)

lemma groups_DIA_B: "re_search RX_DIA_B s = Some ms \<Longrightarrow> length (groups s ms) = 1"
  by (drule re_search_length) (simp add: RX_DIA_B_def)

lemma groups_de_BLOQUE: "re_match RX_BLOQUE s = Some ms \<Longrightarrow> length (groups s ms) = 2"
  by (drule re_match_length) (simp add: RX_BLOQUE_def)

lemma groups_ITEM: "re_match RX_ITEM s = Some ms \<Longrightarrow> length (groups s ms) = 3"
  by (drule re_match_length) (simp add: RX_ITEM_def RX_BLOQUE_def)

end
